theory Spec2Isabelle
  imports Complex_Main "HOL-Library.Sublist" "HOL-Library.Log_Nat" "HOL-Library.Product_Lexorder"
begin

section \<open>Text primitives of the scripts\<close>

text \<open>
  The scripts work on Python \<^verbatim>\<open>str\<close> values. A string is modelled as a list of
  characters; the character classes below are those of Python on ASCII text
  (\<^verbatim>\<open>str.isspace\<close>, the regular-expression classes \<^verbatim>\<open>\s\<close> and \<^verbatim>\<open>\d\<close>,
  \<^verbatim>\<open>str.upper\<close>). Characters outside ASCII are neither space nor digit and are
  left unchanged by \<open>upper\<close>.
\<close>

definition is_space :: "char \<Rightarrow> bool" where
  "is_space c = (c \<in> set [CHR 0x09, CHR 0x0A, CHR 0x0B, CHR 0x0C, CHR 0x0D,
                            CHR 0x1C, CHR 0x1D, CHR 0x1E, CHR 0x1F, CHR 0x20])"

definition is_digit :: "char \<Rightarrow> bool" where
  "is_digit c = (c \<in> set ''0123456789'')"

definition upper_char :: "char \<Rightarrow> char" where
  "upper_char c =
     (case map_of (zip ''abcdefghijklmnopqrstuvwxyz'' ''ABCDEFGHIJKLMNOPQRSTUVWXYZ'') c of
        Some u \<Rightarrow> u
      | None \<Rightarrow> c)"

definition upper :: "string \<Rightarrow> string" where
  "upper s = map upper_char s"

text \<open>Python's \<^verbatim>\<open>needle in hay\<close> on strings: \<open>needle\<close> occurs as a contiguous run.\<close>

fun str_in :: "string \<Rightarrow> string \<Rightarrow> bool" where
  "str_in needle [] = (needle = [])"
| "str_in needle (c # cs) = (prefix needle (c # cs) \<or> str_in needle cs)"

text \<open>\<^verbatim>\<open>str.split(sep)\<close> with a one-character separator: never empty.\<close>

fun split_on :: "char \<Rightarrow> string \<Rightarrow> string list" where
  "split_on sep [] = [[]]"
| "split_on sep (c # cs) =
     (if c = sep then [] # split_on sep cs
      else (case split_on sep cs of
              s # ss \<Rightarrow> (c # s) # ss
            | [] \<Rightarrow> [[c]]))"

definition lstrip :: "string \<Rightarrow> string" where
  "lstrip s = dropWhile is_space s"

definition rstrip :: "string \<Rightarrow> string" where
  "rstrip s = rev (dropWhile is_space (rev s))"

definition strip :: "string \<Rightarrow> string" where
  "strip s = rstrip (lstrip s)"

text \<open>\<^verbatim>\<open>re.match(r'\d{2}/\d{2}/\d{2}', s)\<close>: anchored at the start, anything may follow.\<close>

fun date_match :: "string \<Rightarrow> bool" where
  "date_match (a # b # s1 # c # d # s2 # e # f # rest) =
     (is_digit a \<and> is_digit b \<and> s1 = CHR ''/'' \<and> is_digit c \<and> is_digit d \<and>
      s2 = CHR ''/'' \<and> is_digit e \<and> is_digit f)"
| "date_match _ = False"

section \<open>Transaction records and the pipe-delimited parsers\<close>

text \<open>
  The dictionaries built by the parsers. The OCR parser (extract_transactions.py) builds
  the four core fields; the pipe-delimited parsers add the statement and the page, which
  is the string captured from the name of the image file; the extraction that also
  classifies (ai_workflow_brain.py) adds the service label. The rows that
  \<^verbatim>\<open>csv.DictReader\<close> yields from the exported file have the columns of \<open>transaction\<close>.
\<close>

record entry =
  transaction_date :: string
  posting_date :: string
  description :: string
  amount :: string

record transaction = entry +
  statement_id :: string
  page :: string

record ai_transaction = transaction +
  service :: string

text \<open>
  \<^verbatim>\<open>parse_transactions\<close> (batch_extract_all.py). \<open>parse_line\<close> is the body of its
  \<^verbatim>\<open>for line in lines\<close> loop: \<open>None\<close> when the iteration appends nothing.
\<close>

definition parse_line :: "string \<Rightarrow> string \<Rightarrow> string \<Rightarrow> transaction option" where
  "parse_line sid page_num raw =
     (let line = strip raw in
      if line = [] \<or> line = ''NO_TRANSACTIONS'' then None
      else if prefix [CHR 0x60, CHR 0x60, CHR 0x60] line \<or> prefix ''DATE|POSTING'' line then None
      else
        (let parts = split_on CHR ''|'' line in
         if 4 \<le> length parts then
           (let trans_date = strip (parts ! 0);
                post_date = strip (parts ! 1);
                descr = strip (parts ! 2);
                amt = strip (parts ! 3)
            in if date_match trans_date
               then Some \<lparr>transaction_date = trans_date,
                          posting_date = post_date, description = descr, amount = amt, statement_id = sid, page = page_num\<rparr>
               else None)
         else None))"

fun parse_lines :: "string \<Rightarrow> string \<Rightarrow> string list \<Rightarrow> transaction list \<Rightarrow> transaction list" where
  "parse_lines sid page_num [] transactions = transactions"
| "parse_lines sid page_num (raw # lines) transactions =
     parse_lines sid page_num lines
       (case parse_line sid page_num raw of
          None \<Rightarrow> transactions
        | Some t \<Rightarrow> transactions @ [t])"

definition parse_transactions :: "string \<Rightarrow> string \<Rightarrow> string \<Rightarrow> transaction list" where
  "parse_transactions output sid page_num =
     (if output = [] \<or> output = ''NO_TRANSACTIONS'' \<or> str_in ''ERROR'' output then []
      else parse_lines sid page_num (split_on CHR 0x0A output) [])"

text \<open>
  \<^verbatim>\<open>extract_transactions_with_opencode\<close> (ai_workflow.py), from the standard output of
  the external tool on: \<open>opencode_line\<close> is the body of the loop over the lines.
\<close>

definition opencode_line :: "string \<Rightarrow> string \<Rightarrow> string \<Rightarrow> transaction option" where
  "opencode_line sid page_num raw =
     (let line = strip raw in
      if str_in ''|'' line \<and> date_match line then
        (let parts = split_on CHR ''|'' line in
         if 4 \<le> length parts
         then Some \<lparr>transaction_date = strip (parts ! 0), posting_date = strip (parts ! 1),
                    description = strip (parts ! 2), amount = strip (parts ! 3),
                    statement_id = sid, page = page_num\<rparr>
         else None)
      else None)"

fun opencode_lines :: "string \<Rightarrow> string \<Rightarrow> string list \<Rightarrow> transaction list \<Rightarrow> transaction list" where
  "opencode_lines sid page_num [] transactions = transactions"
| "opencode_lines sid page_num (raw # lines) transactions =
     opencode_lines sid page_num lines
       (case opencode_line sid page_num raw of
          None \<Rightarrow> transactions
        | Some t \<Rightarrow> transactions @ [t])"

definition extract_transactions_with_opencode :: "string \<Rightarrow> string \<Rightarrow> string \<Rightarrow> transaction list" where
  "extract_transactions_with_opencode stdout sid page_num =
     (let output = strip stdout in
      if output \<noteq> [] \<and> \<not> str_in ''NO_TRANSACTIONS'' output
      then opencode_lines sid page_num (split_on CHR 0x0A output) []
      else [])"

section \<open>Deduplication\<close>

text \<open>
  \<^verbatim>\<open>deduplicate_transactions\<close> (batch_extract_all.py): the key of a record, and the loop
  over the records with the set \<open>seen\<close> and the list \<open>unique_transactions\<close>.
\<close>

definition dedup_key :: "transaction \<Rightarrow> string \<times> string \<times> string \<times> string" where
  "dedup_key t = (transaction_date t, posting_date t, description t, amount t)"

fun dedup_loop :: "(string \<times> string \<times> string \<times> string) set \<Rightarrow> transaction list \<Rightarrow>
    transaction list \<Rightarrow> transaction list" where
  "dedup_loop seen unique_transactions [] = unique_transactions"
| "dedup_loop seen unique_transactions (t # ts) =
     (if dedup_key t \<notin> seen
      then dedup_loop (insert (dedup_key t) seen) (unique_transactions @ [t]) ts
      else dedup_loop seen unique_transactions ts)"

definition deduplicate_transactions :: "transaction list \<Rightarrow> transaction list" where
  "deduplicate_transactions transactions = dedup_loop {} [] transactions"

text \<open>
  The same loop without the accumulator: what it appends to \<open>unique_transactions\<close>.
\<close>

fun dedup_from :: "(string \<times> string \<times> string \<times> string) set \<Rightarrow> transaction list \<Rightarrow>
    transaction list" where
  "dedup_from seen [] = []"
| "dedup_from seen (t # ts) =
     (if dedup_key t \<in> seen then dedup_from seen ts
      else t # dedup_from (insert (dedup_key t) seen) ts)"

section \<open>Vendor classification\<close>

text \<open>
  \<^verbatim>\<open>generate_summary\<close> (ai_workflow.py): the \<^verbatim>\<open>if/elif\<close> chain that names the
  service of a row, applied to the uppercased description.
\<close>

definition summary_service :: "string \<Rightarrow> string" where
  "summary_service text =
     (let desc = upper text in
      if str_in ''OPENROUTER'' desc then ''OpenRouter AI''
      else if str_in ''ANTHROPIC'' desc then ''Anthropic AI''
      else if str_in ''RUNPOD'' desc then ''RunPod GPU''
      else if str_in ''KIE.AI'' desc \<or> str_in ''KIE AI'' desc then ''Kie.ai''
      else if str_in ''BUDGIEAI'' desc \<or> str_in ''BUDGIE AI'' desc then ''BudgieAI''
      else if str_in ''DIGITALOCEAN'' desc then ''DigitalOcean''
      else if str_in ''STRIPE'' desc \<and> str_in ''Z.AI'' desc then ''Z.AI Service''
      else if str_in ''GOOGLE'' desc \<and> str_in ''CLOUD'' desc then ''Google Cloud''
      else ''Other AI Service'')"

text \<open>
  \<^verbatim>\<open>format_for_google_sheets\<close> (format_for_sheets.py): the chain that sets
  \<^verbatim>\<open>is_ai\<close> and \<^verbatim>\<open>service_name\<close>. \<open>None\<close> stands for \<^verbatim>\<open>is_ai = False\<close>.
\<close>

definition sheets_service :: "string \<Rightarrow> string option" where
  "sheets_service text =
     (let desc = upper text in
      if str_in ''OPENROUTER'' desc then Some ''OpenRouter AI''
      else if str_in ''GOOGLE'' desc \<and> str_in ''CLOUD'' desc then Some ''Google Cloud''
      else if str_in ''ANTHROPIC'' desc then Some ''Anthropic AI''
      else if str_in ''RUNPOD'' desc then Some ''RunPod GPU''
      else if str_in ''KIE.AI'' desc \<or> str_in ''KIE AI'' desc then Some ''Kie.ai''
      else if str_in ''BUDGIEAI'' desc \<or> str_in ''BUDGIE AI'' desc then Some ''BudgieAI''
      else if str_in ''DIGITALOCEAN'' desc then Some ''DigitalOcean''
      else if str_in ''STRIPE'' desc \<and> str_in ''Z.AI'' desc then Some ''Z.AI Service''
      else None)"

text \<open>
  The vendor table as the specification words it: an ordered list of rules, a rule
  being a list of alternatives, an alternative a list of substrings that must all occur;
  the first rule with a matching alternative gives the label.
\<close>

definition occurs_in :: "string \<Rightarrow> string \<Rightarrow> bool" where
  "occurs_in needle hay = (\<exists>before after. hay = before @ needle @ after)"

definition rule_matches :: "string list list \<Rightarrow> string \<Rightarrow> bool" where
  "rule_matches alternatives desc =
     (\<exists>alt \<in> set alternatives. \<forall>kw \<in> set alt. occurs_in kw desc)"

fun first_rule :: "(string list list \<times> string) list \<Rightarrow> string \<Rightarrow> string option" where
  "first_rule [] desc = None"
| "first_rule ((alternatives, label) # rules) desc =
     (if rule_matches alternatives desc then Some label else first_rule rules desc)"

definition spec_table :: "(string list list \<times> string) list" where
  "spec_table =
     [([[''OPENROUTER'']], ''OpenRouter AI''),
      ([[''ANTHROPIC'']], ''Anthropic AI''),
      ([[''RUNPOD'']], ''RunPod GPU''),
      ([[''KIE.AI''], [''KIE AI'']], ''Kie.ai''),
      ([[''BUDGIEAI''], [''BUDGIE AI'']], ''BudgieAI''),
      ([[''DIGITALOCEAN'']], ''DigitalOcean''),
      ([[''STRIPE'', ''Z.AI'']], ''Z.AI Service''),
      ([[''GOOGLE'', ''CLOUD'']], ''Google Cloud'')]"

definition sheets_table :: "(string list list \<times> string) list" where
  "sheets_table =
     [([[''OPENROUTER'']], ''OpenRouter AI''),
      ([[''GOOGLE'', ''CLOUD'']], ''Google Cloud''),
      ([[''ANTHROPIC'']], ''Anthropic AI''),
      ([[''RUNPOD'']], ''RunPod GPU''),
      ([[''KIE.AI''], [''KIE AI'']], ''Kie.ai''),
      ([[''BUDGIEAI''], [''BUDGIE AI'']], ''BudgieAI''),
      ([[''DIGITALOCEAN'']], ''DigitalOcean''),
      ([[''STRIPE'', ''Z.AI'']], ''Z.AI Service'')]"

definition spec_classify :: "string \<Rightarrow> string option" where
  "spec_classify text = first_rule spec_table (upper text)"

text \<open>
  The record the specification describes for a pipe-delimited line: segments 0 to 3 of
  the line, each trimmed.
\<close>

definition segments_record :: "string \<Rightarrow> string \<Rightarrow> string \<Rightarrow> transaction" where
  "segments_record sid page_num raw =
     (let segments = split_on CHR ''|'' raw in
      \<lparr>transaction_date = strip (segments ! 0), posting_date = strip (segments ! 1),
       description = strip (segments ! 2), amount = strip (segments ! 3),
       statement_id = sid, page = page_num\<rparr>)"

section \<open>Python floats\<close>

text \<open>
  A Python \<^verbatim>\<open>float\<close> is an IEEE 754 binary64 value: a rational, an infinity or
  not-a-number (the sign of zero is not modelled: it affects neither a comparison nor a
  sum's order). \<open>round64\<close> rounds a rational to the nearest binary64 value, ties to
  even: 53 significant bits, least exponent \<open>- 1074\<close>, and overflow to infinity when the
  rounded magnitude \<open>m * 2 powi e\<close> reaches \<open>2 ^ 1024\<close>, that is when \<open>971 < e\<close>, or
  \<open>e = 971\<close> and \<open>m = 2 ^ 53\<close>.
\<close>

datatype pyfloat = Finite rat | PosInf | NegInf | NaN

definition round_half_even :: "rat \<Rightarrow> int" where
  "round_half_even q =
     (let f = \<lfloor>q\<rfloor>; d = q - of_int f
      in if d < 1 / 2 then f
         else if 1 / 2 < d then f + 1
         else if even f then f else f + 1)"

text \<open>The integer \<open>k\<close> with \<open>2 powi k \<le> a < 2 powi (k + 1)\<close>, for positive \<open>a\<close>.\<close>

definition ilog2 :: "rat \<Rightarrow> int" where
  "ilog2 a =
     (let k = bitlen (fst (quotient_of a)) - bitlen (snd (quotient_of a))
      in if 2 powi k \<le> a then k else k - 1)"

definition round64 :: "rat \<Rightarrow> pyfloat" where
  "round64 x =
     (if x = 0 then Finite 0
      else
        (let a = \<bar>x\<bar>;
             e = max (ilog2 a - 52) (- 1074);
             m = round_half_even (a / 2 powi e);
             r = of_int m * 2 powi e
         in if 971 < e \<or> (e = 971 \<and> m = 2 ^ 53) then (if x < 0 then NegInf else PosInf)
            else Finite (if x < 0 then - r else r)))"

text \<open>The operator \<^verbatim>\<open>+\<close> on floats.\<close>

fun fadd :: "pyfloat \<Rightarrow> pyfloat \<Rightarrow> pyfloat" where
  "fadd (Finite a) (Finite b) = round64 (a + b)"
| "fadd NaN y = NaN"
| "fadd x NaN = NaN"
| "fadd PosInf NegInf = NaN"
| "fadd NegInf PosInf = NaN"
| "fadd PosInf y = PosInf"
| "fadd x PosInf = PosInf"
| "fadd NegInf y = NegInf"
| "fadd x NegInf = NegInf"



text \<open>
  \<^verbatim>\<open>float(s)\<close> on a string: the whitespace that \<^verbatim>\<open>float\<close> drops around an ASCII
  string is tab, line feed, vertical tab, form feed, carriage return and space (fewer
  characters than \<^verbatim>\<open>str.strip\<close> removes); an underscore may stand between two digits
  only; then an optional sign and either "inf", "infinity" or "nan" in any letter case,
  or a decimal numeral (digits with an optional point, at least one digit, an optional
  exponent). \<open>None\<close> stands for \<^verbatim>\<open>ValueError\<close>.
\<close>

definition is_float_space :: "char \<Rightarrow> bool" where
  "is_float_space c = (c \<in> set [CHR 0x09, CHR 0x0A, CHR 0x0B, CHR 0x0C, CHR 0x0D, CHR 0x20])"

definition float_strip :: "string \<Rightarrow> string" where
  "float_strip s = rev (dropWhile is_float_space (rev (dropWhile is_float_space s)))"

definition lower_char :: "char \<Rightarrow> char" where
  "lower_char c =
     (case map_of (zip ''ABCDEFGHIJKLMNOPQRSTUVWXYZ'' ''abcdefghijklmnopqrstuvwxyz'') c of
        Some l \<Rightarrow> l
      | None \<Rightarrow> c)"

definition digit_value :: "char \<Rightarrow> int" where
  "digit_value c =
     (case map_of (zip ''0123456789'' [0, 1, 2, 3, 4, 5, 6, 7, 8, 9]) c of
        Some v \<Rightarrow> v
      | None \<Rightarrow> 0)"

definition digits_value :: "string \<Rightarrow> int" where
  "digits_value ds = foldl (\<lambda>acc c. 10 * acc + digit_value c) 0 ds"

fun underscores_ok :: "char \<Rightarrow> string \<Rightarrow> bool" where
  "underscores_ok prev [] = (prev \<noteq> CHR ''_'')"
| "underscores_ok prev (c # cs) =
     ((if c = CHR ''_'' then is_digit prev else (prev = CHR ''_'' \<longrightarrow> is_digit c))
      \<and> underscores_ok c cs)"

definition split_sign :: "string \<Rightarrow> bool \<times> string" where
  "split_sign s =
     (case s of
        c # cs \<Rightarrow>
          if c = CHR ''-'' then (True, cs) else if c = CHR ''+'' then (False, cs) else (False, s)
      | [] \<Rightarrow> (False, s))"

definition parse_exponent :: "string \<Rightarrow> int option" where
  "parse_exponent s =
     (case s of
        [] \<Rightarrow> Some 0
      | c # cs \<Rightarrow>
          if c = CHR ''e'' \<or> c = CHR ''E'' then
            (let (neg, ds) = split_sign cs in
             if ds \<noteq> [] \<and> list_all is_digit ds
             then Some (if neg then - digits_value ds else digits_value ds)
             else None)
          else None)"

definition digits_count :: "string \<Rightarrow> int" where
  "digits_count ds = foldl (\<lambda>n c. n + 1) 0 ds"

definition parse_decimal :: "string \<Rightarrow> rat option" where
  "parse_decimal s =
     (let ip = takeWhile is_digit s;
          r1 = dropWhile is_digit s;
          has_point = (r1 \<noteq> [] \<and> hd r1 = CHR ''.'');
          fp = (if has_point then takeWhile is_digit (tl r1) else []);
          r2 = (if has_point then dropWhile is_digit (tl r1) else r1)
      in if ip = [] \<and> fp = [] then None
         else (case parse_exponent r2 of
                 None \<Rightarrow> None
               | Some ex \<Rightarrow>
                   Some (of_int (digits_value (ip @ fp)) * 10 powi (ex - digits_count fp))))"

text \<open>What the string denotes, before any rounding.\<close>

datatype literal = Number rat | Infinity bool | NotANumber

definition parse_literal :: "string \<Rightarrow> literal option" where
  "parse_literal s =
     (let t = float_strip s in
      if \<not> underscores_ok CHR 0x00 t then None
      else
        (let (neg, body) = split_sign (filter (\<lambda>c. c \<noteq> CHR ''_'') t);
             word = map lower_char body
         in if word = ''inf'' \<or> word = ''infinity'' then Some (Infinity neg)
            else if word = ''nan'' then Some NotANumber
            else (case parse_decimal body of
                    None \<Rightarrow> None
                  | Some q \<Rightarrow> Some (Number (if neg then - q else q)))))"

fun literal_value :: "literal \<Rightarrow> pyfloat" where
  "literal_value (Number q) = round64 q"
| "literal_value (Infinity neg) = (if neg then NegInf else PosInf)"
| "literal_value NotANumber = NaN"

definition py_float :: "string \<Rightarrow> pyfloat option" where
  "py_float s = map_option literal_value (parse_literal s)"

text \<open>\<^verbatim>\<open>float(amount.replace(',', ''))\<close>, the amount of a row as the scripts read it.\<close>

definition remove_commas :: "string \<Rightarrow> string" where
  "remove_commas s = filter (\<lambda>c. c \<noteq> CHR '','') s"

definition amount_value :: "string \<Rightarrow> pyfloat option" where
  "amount_value s = py_float (remove_commas s)"

text \<open>The exact number an amount string denotes, when it denotes one.\<close>

definition amount_exact :: "string \<Rightarrow> rat option" where
  "amount_exact s =
     (case parse_literal (remove_commas s) of
        Some (Number q) \<Rightarrow> Some q
      | _ \<Rightarrow> None)"

section \<open>Regular expressions of the scripts\<close>











section \<open>The fixed-column parser\<close>







section \<open>Selecting the AI rows (ai_workflow.py)\<close>





section \<open>The sheet of AI rows (format_for_sheets.py)\<close>








datatype error = ValueError






section \<open>Aggregation\<close>

text \<open>
  The per-service dictionaries of \<^verbatim>\<open>generate_summary\<close> (ai_workflow.py) and
  \<^verbatim>\<open>save_and_summarize\<close> (ai_workflow_brain.py): a bucket is created with count 0 and
  total 0 when the service is new, then its count grows by one and the amount is added
  to its total.
\<close>

record bucket =
  bucket_count :: nat
  bucket_total :: pyfloat

definition add_to_bucket :: "(string \<rightharpoonup> bucket) \<Rightarrow> string \<Rightarrow> pyfloat \<Rightarrow> (string \<rightharpoonup> bucket)" where
  "add_to_bucket services name amt =
     (let b = (case services name of
                 None \<Rightarrow> \<lparr>bucket_count = 0, bucket_total = Finite 0\<rparr>
               | Some b \<Rightarrow> b)
      in services(name \<mapsto> \<lparr>bucket_count = bucket_count b + 1,
                             bucket_total = fadd (bucket_total b) amt\<rparr>))"

text \<open>
  \<^verbatim>\<open>generate_summary\<close>: the state is the dictionary and \<^verbatim>\<open>total_amount\<close>. The amount is
  converted outside any \<^verbatim>\<open>try\<close>.
\<close>

fun summary_loop :: "transaction list \<Rightarrow> (string \<rightharpoonup> bucket) \<times> pyfloat \<Rightarrow>
    error + (string \<rightharpoonup> bucket) \<times> pyfloat" where
  "summary_loop [] state = Inr state"
| "summary_loop (row # rows) (ai_services, total_amount) =
     (case amount_value (amount row) of
        None \<Rightarrow> Inl ValueError
      | Some amt \<Rightarrow>
          summary_loop rows
            (add_to_bucket ai_services (summary_service (description row)) amt,
             fadd total_amount amt))"

definition generate_summary :: "transaction list \<Rightarrow> error + (string \<rightharpoonup> bucket) \<times> pyfloat" where
  "generate_summary ai_transactions = summary_loop ai_transactions (Map.empty, Finite 0)"

text \<open>
  \<^verbatim>\<open>save_and_summarize\<close>: the summary it computes from the transactions. A transaction
  whose amount \<^verbatim>\<open>float\<close> rejects is passed over. On an empty list the function returns
  before it builds the summary; the model gives the summary with no bucket.
\<close>

fun brain_loop :: "ai_transaction list \<Rightarrow> (string \<rightharpoonup> bucket) \<times> pyfloat \<Rightarrow>
    (string \<rightharpoonup> bucket) \<times> pyfloat" where
  "brain_loop [] state = state"
| "brain_loop (t # ts) (service_totals, total_amount) =
     brain_loop ts
       (case amount_value (amount t) of
          None \<Rightarrow> (service_totals, total_amount)
        | Some amt \<Rightarrow> (add_to_bucket service_totals (service t) amt, fadd total_amount amt))"

definition save_and_summarize :: "ai_transaction list \<Rightarrow> (string \<rightharpoonup> bucket) \<times> pyfloat" where
  "save_and_summarize transactions = brain_loop transactions (Map.empty, Finite 0)"

section \<open>Notions used to state the results on floats and aggregates\<close>

text \<open>
  The exponent and the mantissa that \<open>round64\<close> gives a positive number: its value is
  the mantissa times two to the exponent.
\<close>

definition expo :: "rat \<Rightarrow> int" where
  "expo a = max (ilog2 a - 52) (- 1074)"

definition mant :: "rat \<Rightarrow> int" where
  "mant a = round_half_even (a / 2 powi expo a)"

text \<open>The float sum of a list, added from left to right starting from zero.\<close>

definition fsum :: "pyfloat list \<Rightarrow> pyfloat" where
  "fsum xs = foldl fadd (Finite 0) xs"

text \<open>
  The bucket the specification describes for the records attributed to a label, given
  the amount strings of these records in their order: none when there is no record,
  else their number and the float sum of their amounts.
\<close>

definition bucket_for :: "string list \<Rightarrow> bucket option" where
  "bucket_for amounts =
     (if amounts = [] then None
      else Some \<lparr>bucket_count = length amounts,
                 bucket_total = fsum (List.map_filter amount_value amounts)\<rparr>)"

text \<open>
  The state the specification describes after a list of records: for
  \<^verbatim>\<open>generate_summary\<close> the records attributed to a label are the rows that
  \<open>summary_service\<close> gives this label; for \<^verbatim>\<open>save_and_summarize\<close> they are the
  transactions that carry this label and whose amount is a float. The running total is
  the float sum of the amounts that are floats.
\<close>

definition summary_buckets :: "transaction list \<Rightarrow> string \<Rightarrow> bucket option" where
  "summary_buckets rows =
     (\<lambda>L. bucket_for (map amount (filter (\<lambda>row. summary_service (description row) = L) rows)))"

definition brain_buckets :: "ai_transaction list \<Rightarrow> string \<Rightarrow> bucket option" where
  "brain_buckets ts =
     (\<lambda>L. bucket_for
            (map amount (filter (\<lambda>t. service t = L \<and> amount_value (amount t) \<noteq> None) ts)))"

definition amounts_total :: "string list \<Rightarrow> pyfloat" where
  "amounts_total amounts = fsum (List.map_filter amount_value amounts)"

text \<open>Count and total of a label that may have no bucket yet.\<close>

definition count_of :: "bucket option \<Rightarrow> nat" where
  "count_of b = (case b of None \<Rightarrow> 0 | Some x \<Rightarrow> bucket_count x)"

definition total_of :: "bucket option \<Rightarrow> pyfloat" where
  "total_of b = (case b of None \<Rightarrow> Finite 0 | Some x \<Rightarrow> bucket_total x)"



text \<open>
  The exact value of an amount string (zero when it denotes no number), whether it is a
  whole number, and the bucket with the exact sum as its total.
\<close>

definition exact_value :: "string \<Rightarrow> rat" where
  "exact_value s = (case amount_exact s of None \<Rightarrow> 0 | Some q \<Rightarrow> q)"

definition whole_amount :: "string \<Rightarrow> bool" where
  "whole_amount s = (case amount_exact s of None \<Rightarrow> False | Some q \<Rightarrow> q = of_int \<lfloor>q\<rfloor>)"

definition exact_bucket :: "string list \<Rightarrow> bucket option" where
  "exact_bucket amounts =
     (if amounts = [] then None
      else Some \<lparr>bucket_count = length amounts,
                 bucket_total = Finite (sum_list (map exact_value amounts))\<rparr>)"

section \<open>Facts about the text primitives\<close>

lemma str_in_occurs: "str_in needle hay = occurs_in needle hay"
proof (induction hay)
  case Nil
  show ?case by (simp add: occurs_in_def)
next
  case (Cons c cs)
  have "occurs_in needle (c # cs) \<longleftrightarrow> prefix needle (c # cs) \<or> occurs_in needle cs"
  proof
    assume "occurs_in needle (c # cs)"
    then obtain before after where h: "c # cs = before @ needle @ after"
      by (auto simp: occurs_in_def)
    show "prefix needle (c # cs) \<or> occurs_in needle cs"
    proof (cases before)
      case Nil
      with h show ?thesis by (simp add: prefix_def)
    next
      case (Cons b bs)
      with h have "cs = bs @ needle @ after" by simp
      then show ?thesis by (auto simp: occurs_in_def)
    qed
  next
    assume "prefix needle (c # cs) \<or> occurs_in needle cs"
    then show "occurs_in needle (c # cs)"
    proof
      assume "prefix needle (c # cs)"
      then obtain after where "c # cs = needle @ after" by (auto simp: prefix_def)
      then have "c # cs = [] @ needle @ after" by simp
      then show ?thesis unfolding occurs_in_def by blast
    next
      assume "occurs_in needle cs"
      then obtain before after where "cs = before @ needle @ after"
        by (auto simp: occurs_in_def)
      then have "c # cs = (c # before) @ needle @ after" by simp
      then show ?thesis unfolding occurs_in_def by blast
    qed
  qed
  with Cons show ?case by simp
qed

lemma split_on_nonempty: "split_on sep s \<noteq> []"
  by (induction s) (auto split: list.splits)

lemma split_on_Cons_other:
  "c \<noteq> sep \<Longrightarrow> split_on sep (c # cs) = (c # hd (split_on sep cs)) # tl (split_on sep cs)"
  using split_on_nonempty [of sep cs] by (cases "split_on sep cs") auto

lemma split_on_append_left:
  "sep \<notin> set xs \<Longrightarrow>
   split_on sep (xs @ ys) = (xs @ hd (split_on sep ys)) # tl (split_on sep ys)"
proof (induction xs)
  case Nil
  then show ?case using split_on_nonempty [of sep ys] by simp
next
  case (Cons x xs)
  then have "x \<noteq> sep" by auto
  with Cons show ?case by (simp add: split_on_Cons_other)
qed

lemma split_on_append_right:
  "sep \<notin> set ys \<Longrightarrow>
   split_on sep (xs @ ys) = butlast (split_on sep xs) @ [last (split_on sep xs) @ ys]"
proof (induction xs)
  case Nil
  then show ?case using split_on_append_left [of sep ys "[]"] by simp
next
  case (Cons x xs)
  show ?case
  proof (cases "x = sep")
    case True
    with Cons show ?thesis by (simp add: split_on_nonempty)
  next
    case False
    from Cons have ih: "split_on sep (xs @ ys) = butlast (split_on sep xs) @ [last (split_on sep xs) @ ys]"
      by simp
    show ?thesis
    proof (cases "split_on sep xs")
      case Nil
      then show ?thesis using split_on_nonempty by blast
    next
      case (Cons s ss)
      with False ih show ?thesis by (cases ss) (auto simp: split_on_Cons_other)
    qed
  qed
qed

lemma rstrip_empty_iff: "rstrip s = [] \<longleftrightarrow> (\<forall>c \<in> set s. is_space c)"
  by (simp add: rstrip_def dropWhile_eq_Nil_conv)

lemma rstrip_Cons:
  "rstrip (x # xs) = (if is_space x \<and> rstrip xs = [] then [] else x # rstrip xs)"
  by (auto simp: rstrip_def dropWhile_append dropWhile_eq_Nil_conv)

lemma lstrip_spaces: "\<forall>c \<in> set ws. is_space c \<Longrightarrow> lstrip (ws @ s) = lstrip s"
  by (simp add: lstrip_def dropWhile_append2)

lemma rstrip_spaces: "\<forall>c \<in> set ws. is_space c \<Longrightarrow> rstrip (s @ ws) = rstrip s"
  by (simp add: rstrip_def dropWhile_append)

lemma strip_spaces_left: "\<forall>c \<in> set ws. is_space c \<Longrightarrow> strip (ws @ s) = strip s"
  by (simp add: strip_def lstrip_spaces)

lemma lstrip_append:
  "lstrip (s @ t) = (if \<forall>c \<in> set s. is_space c then lstrip t else lstrip s @ t)"
  by (simp add: lstrip_def dropWhile_append)

lemma strip_spaces_right: "\<forall>c \<in> set ws. is_space c \<Longrightarrow> strip (s @ ws) = strip s"
proof -
  assume ws: "\<forall>c \<in> set ws. is_space c"
  then have e: "lstrip ws = []" by (simp add: lstrip_def dropWhile_eq_Nil_conv)
  show ?thesis
  proof (cases "\<forall>c \<in> set s. is_space c")
    case True
    then have "lstrip s = []" by (simp add: lstrip_def dropWhile_eq_Nil_conv)
    with True e show ?thesis by (simp add: strip_def lstrip_append)
  next
    case False
    then have "lstrip (s @ ws) = lstrip s @ ws" by (auto simp: lstrip_append)
    with ws show ?thesis by (simp add: strip_def rstrip_spaces)
  qed
qed

lemma strip_decompose:
  "\<exists>ws1 ws2. raw = ws1 @ strip raw @ ws2 \<and> (\<forall>c \<in> set ws1. is_space c) \<and> (\<forall>c \<in> set ws2. is_space c)"
proof -
  let ?l = "lstrip raw"
  have 1: "raw = takeWhile is_space raw @ ?l" by (simp add: lstrip_def)
  have "rev ?l = takeWhile is_space (rev ?l) @ dropWhile is_space (rev ?l)" by simp
  then have "?l = rstrip ?l @ rev (takeWhile is_space (rev ?l))"
    by (metis rev_append rev_rev_ident rstrip_def)
  then have 2: "?l = strip raw @ rev (takeWhile is_space (rev ?l))" by (simp add: strip_def)
  have a: "\<forall>c \<in> set (takeWhile is_space raw). is_space c" by (auto dest: set_takeWhileD)
  have b: "\<forall>c \<in> set (rev (takeWhile is_space (rev ?l))). is_space c" by (auto dest: set_takeWhileD)
  from 1 2 have "raw = takeWhile is_space raw @ strip raw @ rev (takeWhile is_space (rev ?l))"
    by metis
  with a b show ?thesis by blast
qed

lemma split_strip:
  assumes sep: "\<not> is_space sep"
  shows "map strip (split_on sep (strip raw)) = map strip (split_on sep raw)"
proof -
  obtain ws1 ws2 where raw: "raw = ws1 @ strip raw @ ws2"
    and w1: "\<forall>c \<in> set ws1. is_space c" and w2: "\<forall>c \<in> set ws2. is_space c"
    using strip_decompose by blast
  let ?core = "strip raw"
  from sep w1 w2 have n1: "sep \<notin> set ws1" and n2: "sep \<notin> set ws2" by auto
  have ne: "split_on sep ?core \<noteq> []" by (rule split_on_nonempty)
  have r: "map strip (split_on sep (?core @ ws2)) = map strip (split_on sep ?core)"
  proof -
    have "map strip (split_on sep (?core @ ws2))
        = map strip (butlast (split_on sep ?core)) @ [strip (last (split_on sep ?core))]"
      using n2 w2 by (simp add: split_on_append_right strip_spaces_right)
    also have "\<dots> = map strip (butlast (split_on sep ?core) @ [last (split_on sep ?core)])"
      by simp
    also have "\<dots> = map strip (split_on sep ?core)"
      using ne by simp
    finally show ?thesis .
  qed
  have ne2: "split_on sep (?core @ ws2) \<noteq> []" by (rule split_on_nonempty)
  have "map strip (split_on sep (ws1 @ (?core @ ws2)))
      = strip (hd (split_on sep (?core @ ws2))) # map strip (tl (split_on sep (?core @ ws2)))"
    using n1 w1 by (simp add: split_on_append_left strip_spaces_left)
  also have "\<dots> = map strip (split_on sep (?core @ ws2))"
    using ne2 by (cases "split_on sep (?core @ ws2)") auto
  finally have "map strip (split_on sep (ws1 @ ?core @ ws2)) = map strip (split_on sep ?core)"
    using r by simp
  with raw show ?thesis by simp
qed

section \<open>Vendor classification: results\<close>

lemma summary_service_table:
  "summary_service d = (case spec_classify d of Some l \<Rightarrow> l | None \<Rightarrow> ''Other AI Service'')"
  by (simp add: summary_service_def spec_classify_def spec_table_def rule_matches_def
      str_in_occurs Let_def)

lemma sheets_service_table: "sheets_service d = first_rule sheets_table (upper d)"
  by (simp add: sheets_service_def sheets_table_def rule_matches_def str_in_occurs Let_def)

lemma upper_example: "upper ''Stripe z.ai google cloud'' = ''STRIPE Z.AI GOOGLE CLOUD''"
  by (simp add: upper_def upper_char_def)

text \<open>
  C1 (as amended). \<^verbatim>\<open>generate_summary\<close> labels a description by the first matching rule
  of the specification's table, in the table's order, and falls back to
  "Other AI Service"; \<^verbatim>\<open>format_for_google_sheets\<close> uses the same rules in another
  order, with "GOOGLE" and "CLOUD" tested second, and gives no label when no rule
  matches. A description that contains "STRIPE", "Z.AI" and "GOOGLE" and no keyword of a
  rule of higher priority is labelled "Z.AI Service" by \<^verbatim>\<open>generate_summary\<close>.
\<close>

theorem vendor_classifier_tables:
  "summary_service d =
     (case first_rule spec_table (upper d) of Some l \<Rightarrow> l | None \<Rightarrow> ''Other AI Service'')
   \<and> sheets_service d = first_rule sheets_table (upper d)
   \<and> (occurs_in ''STRIPE'' (upper d) \<and> occurs_in ''Z.AI'' (upper d) \<and> occurs_in ''GOOGLE'' (upper d)
        \<and> \<not> occurs_in ''OPENROUTER'' (upper d) \<and> \<not> occurs_in ''ANTHROPIC'' (upper d)
        \<and> \<not> occurs_in ''RUNPOD'' (upper d) \<and> \<not> occurs_in ''KIE.AI'' (upper d)
        \<and> \<not> occurs_in ''KIE AI'' (upper d) \<and> \<not> occurs_in ''BUDGIEAI'' (upper d)
        \<and> \<not> occurs_in ''BUDGIE AI'' (upper d) \<and> \<not> occurs_in ''DIGITALOCEAN'' (upper d)
      \<longrightarrow> summary_service d = ''Z.AI Service'')"
proof -
  have a: "summary_service d =
     (case first_rule spec_table (upper d) of Some l \<Rightarrow> l | None \<Rightarrow> ''Other AI Service'')"
    using summary_service_table [of d] by (simp add: spec_classify_def)
  have c: "occurs_in ''STRIPE'' (upper d) \<and> occurs_in ''Z.AI'' (upper d) \<and> occurs_in ''GOOGLE'' (upper d)
        \<and> \<not> occurs_in ''OPENROUTER'' (upper d) \<and> \<not> occurs_in ''ANTHROPIC'' (upper d)
        \<and> \<not> occurs_in ''RUNPOD'' (upper d) \<and> \<not> occurs_in ''KIE.AI'' (upper d)
        \<and> \<not> occurs_in ''KIE AI'' (upper d) \<and> \<not> occurs_in ''BUDGIEAI'' (upper d)
        \<and> \<not> occurs_in ''BUDGIE AI'' (upper d) \<and> \<not> occurs_in ''DIGITALOCEAN'' (upper d)
      \<longrightarrow> summary_service d = ''Z.AI Service''"
    by (simp add: summary_service_def str_in_occurs Let_def)
  from a sheets_service_table [of d] c show ?thesis by blast
qed

theorem vendor_classifier_tables_witness:
  "occurs_in ''STRIPE'' (upper ''Stripe z.ai google cloud'')
   \<and> occurs_in ''Z.AI'' (upper ''Stripe z.ai google cloud'')
   \<and> occurs_in ''GOOGLE'' (upper ''Stripe z.ai google cloud'')
   \<and> summary_service ''Stripe z.ai google cloud'' = ''Z.AI Service''
   \<and> first_rule sheets_table (upper ''Stripe z.ai google cloud'') = Some ''Google Cloud''"
  using vendor_classifier_tables [of "''Stripe z.ai google cloud''"]
  by (simp add: str_in_occurs [symmetric] upper_example summary_service_def sheets_service_def)

text \<open>
  C1 as stated fails in \<^verbatim>\<open>format_for_google_sheets\<close>: for this description the table
  gives "Z.AI Service", the function "Google Cloud".
\<close>

theorem vendor_classifier_counterexample:
  "spec_classify ''Stripe z.ai google cloud'' = Some ''Z.AI Service''
   \<and> sheets_service ''Stripe z.ai google cloud'' = Some ''Google Cloud''"
  by (simp add: spec_classify_def spec_table_def rule_matches_def str_in_occurs [symmetric]
      upper_example sheets_service_def)

section \<open>Deduplication: results\<close>

lemma dedup_loop_from: "dedup_loop seen acc ts = acc @ dedup_from seen ts"
  by (induction ts arbitrary: seen acc) auto



lemma dedup_from_keys: "set (map dedup_key (dedup_from seen ts)) = set (map dedup_key ts) - seen"
  by (induction ts arbitrary: seen) auto

lemma dedup_from_distinct: "distinct (map dedup_key (dedup_from seen ts))"
  by (induction ts arbitrary: seen) (auto simp: dedup_from_keys simp del: set_map)

lemma dedup_from_id:
  "distinct (map dedup_key ts) \<Longrightarrow> set (map dedup_key ts) \<inter> seen = {} \<Longrightarrow> dedup_from seen ts = ts"
  by (induction ts arbitrary: seen) auto



text \<open>
  C9. Deduplicating the output of \<^verbatim>\<open>deduplicate_transactions\<close> again changes nothing.
\<close>

theorem deduplicate_idempotent:
  "deduplicate_transactions (deduplicate_transactions xs) = deduplicate_transactions xs"
  by (simp add: deduplicate_transactions_def dedup_loop_from dedup_from_id dedup_from_distinct)

section \<open>The page-level guard of the batch parser\<close>

text \<open>
  C10. When the text handed to \<^verbatim>\<open>parse_transactions\<close> (batch_extract_all.py) contains
  "ERROR" anywhere, the result is the empty list, whatever its lines are.
\<close>

theorem parse_transactions_error_guard:
  "str_in ''ERROR'' output \<Longrightarrow> parse_transactions output sid page_num = []"
  by (simp add: parse_transactions_def)

theorem parse_transactions_error_guard_witness:
  "str_in ''ERROR'' ''19/05/25|20/05/25|ERRORLESS SHOP|100.00''
   \<and> parse_line ''2025-05-25'' ''1'' ''19/05/25|20/05/25|ERRORLESS SHOP|100.00'' =
       Some \<lparr>transaction_date = ''19/05/25'',
             posting_date = ''20/05/25'', description = ''ERRORLESS SHOP'', amount = ''100.00'', statement_id = ''2025-05-25'', page = ''1''\<rparr>
   \<and> parse_transactions ''19/05/25|20/05/25|ERRORLESS SHOP|100.00'' ''2025-05-25'' ''1'' = []"
proof -
  have h: "str_in ''ERROR'' ''19/05/25|20/05/25|ERRORLESS SHOP|100.00''"
    by simp
  have l: "parse_line ''2025-05-25'' ''1'' ''19/05/25|20/05/25|ERRORLESS SHOP|100.00'' =
       Some \<lparr>transaction_date = ''19/05/25'',
             posting_date = ''20/05/25'', description = ''ERRORLESS SHOP'', amount = ''100.00'', statement_id = ''2025-05-25'', page = ''1''\<rparr>"
    by code_simp
  from h l parse_transactions_error_guard [OF h, of "''2025-05-25''" "''1''"]
  show ?thesis by simp
qed

section \<open>The pipe-delimited parsers: results\<close>

lemma parse_lines_map_filter:
  "parse_lines sid pg ls acc = acc @ List.map_filter (parse_line sid pg) ls"
  by (induction ls arbitrary: acc) (auto simp: map_filter_simps split: option.splits)

lemma opencode_lines_map_filter:
  "opencode_lines sid pg ls acc = acc @ List.map_filter (opencode_line sid pg) ls"
  by (induction ls arbitrary: acc) (auto simp: map_filter_simps split: option.splits)

lemma hd_split_on_prefix: "prefix (hd (split_on sep s)) s"
proof (induction s)
  case Nil
  show ?case by simp
next
  case (Cons c cs)
  show ?case
  proof (cases "c = sep")
    case True
    then show ?thesis by simp
  next
    case False
    have "hd (split_on sep (c # cs)) = c # hd (split_on sep cs)"
      unfolding split_on_Cons_other [OF False] by simp
    with Cons show ?thesis by simp
  qed
qed

lemma date_match_append: "date_match p \<Longrightarrow> date_match (p @ q)"
  by (induction p rule: date_match.induct) simp_all

lemma date_match_prefix: "date_match p \<Longrightarrow> prefix p s \<Longrightarrow> date_match s"
  by (auto simp: prefix_def date_match_append)

lemma digit_not_space: "is_digit c \<Longrightarrow> \<not> is_space c"
  by (auto simp: is_digit_def is_space_def)

lemma date_match_strip: "date_match s \<Longrightarrow> date_match (strip s)"
proof (induction s rule: date_match.induct)
  case (1 a b s1 c d s2 e f rest)
  then have dg: "is_digit a" "is_digit b" "is_digit c" "is_digit d" "is_digit e" "is_digit f"
    and sl: "s1 = CHR ''/''" "s2 = CHR ''/''"
    by simp_all
  have ns: "\<not> is_space a" "\<not> is_space b" "\<not> is_space c" "\<not> is_space d"
    "\<not> is_space e" "\<not> is_space f"
    using dg by (simp_all add: digit_not_space)
  have ns': "\<not> is_space s1" "\<not> is_space s2"
    using sl by (simp_all add: is_space_def)
  from ns ns'
  have "strip (a # b # s1 # c # d # s2 # e # f # rest)
      = a # b # s1 # c # d # s2 # e # f # rstrip rest"
    by (simp add: strip_def lstrip_def rstrip_Cons)
  with dg sl show ?case by simp
qed simp_all

lemma date_match_first: "date_match s \<Longrightarrow> s \<noteq> [] \<and> is_digit (hd s)"
  by (induction s rule: date_match.induct) simp_all

lemma str_in_single: "str_in [c] s \<longleftrightarrow> c \<in> set s"
  by (induction s) auto

lemma split_on_length_sep: "2 \<le> length (split_on sep s) \<Longrightarrow> sep \<in> set s"
proof (induction s)
  case Nil
  then show ?case by simp
next
  case (Cons c cs)
  show ?case
  proof (cases "c = sep")
    case True
    then show ?thesis by simp
  next
    case False
    have "length (split_on sep (c # cs)) = length (split_on sep cs)"
      unfolding split_on_Cons_other [OF False]
      using split_on_nonempty [of sep cs] by simp
    with Cons show ?thesis by simp
  qed
qed

lemma pipe_not_space: "\<not> is_space CHR ''|''"
  by (simp add: is_space_def)

lemma line_accepted:
  assumes len: "4 \<le> length (split_on CHR ''|'' raw)"
    and dm: "date_match (hd (split_on CHR ''|'' raw))"
  shows "parse_line sid pg raw = Some (segments_record sid pg raw)"
    and "opencode_line sid pg raw = Some (segments_record sid pg raw)"
proof -
  let ?line = "strip raw"
  let ?parts = "split_on CHR ''|'' ?line"
  let ?segs = "split_on CHR ''|'' raw"
  have m: "map strip ?parts = map strip ?segs"
    by (rule split_strip [OF pipe_not_space])
  then have l: "length ?parts = length ?segs"
    by (metis length_map)
  have nth: "\<And>i. i < 4 \<Longrightarrow> strip (?parts ! i) = strip (?segs ! i)"
  proof -
    fix i :: nat
    assume "i < 4"
    with len l have "i < length ?parts" "i < length ?segs" by auto
    then have "strip (?parts ! i) = map strip ?parts ! i" "strip (?segs ! i) = map strip ?segs ! i"
      by simp_all
    with m show "strip (?parts ! i) = strip (?segs ! i)" by simp
  qed
  have segs0: "?segs ! 0 = hd ?segs"
    using split_on_nonempty [of "CHR ''|''" raw] by (simp add: hd_conv_nth)
  from dm have dmraw: "date_match raw"
    by (rule date_match_prefix) (rule hd_split_on_prefix)
  then have dmline: "date_match ?line" by (rule date_match_strip)
  from dm have d0: "date_match (strip (?parts ! 0))"
    using nth [of 0] segs0 by (simp add: date_match_strip)
  from date_match_first [OF dmline] have ne: "?line \<noteq> []" and dg: "is_digit (hd ?line)"
    by simp_all
  from ne dg have g1: "?line \<noteq> ''NO_TRANSACTIONS''"
    by (auto simp: is_digit_def)
  from ne dg have g2: "\<not> prefix [CHR 0x60, CHR 0x60, CHR 0x60] ?line"
    by (cases ?line) (auto simp: is_digit_def)
  from ne dg have g3: "\<not> prefix ''DATE|POSTING'' ?line"
    by (cases ?line) (auto simp: is_digit_def)
  from len l have l4: "4 \<le> length ?parts" by simp
  show "parse_line sid pg raw = Some (segments_record sid pg raw)"
    using ne g1 g2 g3 l4 d0 nth [of 0] nth [of 1] nth [of 2] nth [of 3]
    by (simp add: parse_line_def segments_record_def Let_def)
  from l4 have "CHR ''|'' \<in> set ?line"
    by (intro split_on_length_sep) simp
  then have "str_in ''|'' ?line" by (simp add: str_in_single)
  then show "opencode_line sid pg raw = Some (segments_record sid pg raw)"
    using dmline l4 nth [of 0] nth [of 1] nth [of 2] nth [of 3]
    by (simp add: opencode_line_def segments_record_def Let_def)
qed

text \<open>
  C2 (as amended). A line whose split on the bar has at least four segments, the first
  beginning with a date token, gives exactly one record in both parsers: segments 0 to 3,
  trimmed. A text that passes the guard of \<^verbatim>\<open>parse_transactions\<close> (not empty, not the
  sentinel "NO_TRANSACTIONS", without the substring "ERROR") yields the records of its
  lines in the order of the lines; so does, in \<^verbatim>\<open>extract_transactions_with_opencode\<close>, a
  text that is not blank and does not contain "NO_TRANSACTIONS".
\<close>

theorem pipe_lines_parsed:
  "(4 \<le> length (split_on CHR ''|'' raw) \<and> date_match (hd (split_on CHR ''|'' raw)) \<longrightarrow>
      parse_line sid pg raw = Some (segments_record sid pg raw) \<and>
      opencode_line sid pg raw = Some (segments_record sid pg raw))
   \<and> (output \<noteq> [] \<and> output \<noteq> ''NO_TRANSACTIONS'' \<and> \<not> str_in ''ERROR'' output \<longrightarrow>
      parse_transactions output sid pg =
        List.map_filter (parse_line sid pg) (split_on CHR 0x0A output))
   \<and> (strip output \<noteq> [] \<and> \<not> str_in ''NO_TRANSACTIONS'' (strip output) \<longrightarrow>
      extract_transactions_with_opencode output sid pg =
        List.map_filter (opencode_line sid pg) (split_on CHR 0x0A (strip output)))"
  using line_accepted [of raw sid pg]
  by (simp add: parse_transactions_def extract_transactions_with_opencode_def
      parse_lines_map_filter opencode_lines_map_filter Let_def)

theorem pipe_lines_parsed_witness:
  "4 \<le> length (split_on CHR ''|'' ''18/12/24 |20/12/24| SHOPEE BANGKOK TH |199.00'')
   \<and> date_match (hd (split_on CHR ''|'' ''18/12/24 |20/12/24| SHOPEE BANGKOK TH |199.00''))
   \<and> parse_line ''2024-12-25'' ''1'' ''18/12/24 |20/12/24| SHOPEE BANGKOK TH |199.00'' =
       Some \<lparr>transaction_date = ''18/12/24'',
             posting_date = ''20/12/24'', description = ''SHOPEE BANGKOK TH'', amount = ''199.00'', statement_id = ''2024-12-25'', page = ''1''\<rparr>
   \<and> opencode_line ''2024-12-25'' ''1'' ''18/12/24 |20/12/24| SHOPEE BANGKOK TH |199.00'' =
       Some \<lparr>transaction_date = ''18/12/24'',
             posting_date = ''20/12/24'', description = ''SHOPEE BANGKOK TH'', amount = ''199.00'', statement_id = ''2024-12-25'', page = ''1''\<rparr>
   \<and> parse_transactions (''07/01/25|07/01/25|Payment-KTB Internet|-8,851.33'' @ [CHR 0x0A] @
         ''Total due'' @ [CHR 0x0A] @ ''18/12/24|20/12/24|SHOPEE BANGKOK TH|199.00'') ''2024-12-25'' ''1'' =
       [\<lparr>transaction_date = ''07/01/25'',
          posting_date = ''07/01/25'', description = ''Payment-KTB Internet'', amount = ''-8,851.33'', statement_id = ''2024-12-25'', page = ''1''\<rparr>,
        \<lparr>transaction_date = ''18/12/24'',
          posting_date = ''20/12/24'', description = ''SHOPEE BANGKOK TH'', amount = ''199.00'', statement_id = ''2024-12-25'', page = ''1''\<rparr>]
   \<and> extract_transactions_with_opencode (''07/01/25|07/01/25|Payment-KTB Internet|-8,851.33'' @ [CHR 0x0A] @
         ''Total due'' @ [CHR 0x0A] @ ''18/12/24|20/12/24|SHOPEE BANGKOK TH|199.00'') ''2024-12-25'' ''1'' =
       [\<lparr>transaction_date = ''07/01/25'',
          posting_date = ''07/01/25'', description = ''Payment-KTB Internet'', amount = ''-8,851.33'', statement_id = ''2024-12-25'', page = ''1''\<rparr>,
        \<lparr>transaction_date = ''18/12/24'',
          posting_date = ''20/12/24'', description = ''SHOPEE BANGKOK TH'', amount = ''199.00'', statement_id = ''2024-12-25'', page = ''1''\<rparr>]"
proof -
  let ?raw = "''18/12/24 |20/12/24| SHOPEE BANGKOK TH |199.00''"
  let ?out = "''07/01/25|07/01/25|Payment-KTB Internet|-8,851.33'' @ [CHR 0x0A] @
         ''Total due'' @ [CHR 0x0A] @ ''18/12/24|20/12/24|SHOPEE BANGKOK TH|199.00''"
  have h: "4 \<le> length (split_on CHR ''|'' ?raw) \<and> date_match (hd (split_on CHR ''|'' ?raw))"
    by (simp add: is_digit_def)
  have g: "?out \<noteq> [] \<and> ?out \<noteq> ''NO_TRANSACTIONS'' \<and> \<not> str_in ''ERROR'' ?out"
    by simp
  have g': "strip ?out \<noteq> [] \<and> \<not> str_in ''NO_TRANSACTIONS'' (strip ?out)"
    by code_simp
  have r: "segments_record ''2024-12-25'' ''1'' ?raw =
       \<lparr>transaction_date = ''18/12/24'',
             posting_date = ''20/12/24'', description = ''SHOPEE BANGKOK TH'', amount = ''199.00'', statement_id = ''2024-12-25'', page = ''1''\<rparr>"
    by code_simp
  have m: "List.map_filter (parse_line ''2024-12-25'' ''1'') (split_on CHR 0x0A ?out) =
       [\<lparr>transaction_date = ''07/01/25'',
          posting_date = ''07/01/25'', description = ''Payment-KTB Internet'', amount = ''-8,851.33'', statement_id = ''2024-12-25'', page = ''1''\<rparr>,
        \<lparr>transaction_date = ''18/12/24'',
          posting_date = ''20/12/24'', description = ''SHOPEE BANGKOK TH'', amount = ''199.00'', statement_id = ''2024-12-25'', page = ''1''\<rparr>]"
    by code_simp
  have m': "List.map_filter (opencode_line ''2024-12-25'' ''1'') (split_on CHR 0x0A (strip ?out)) =
       [\<lparr>transaction_date = ''07/01/25'',
          posting_date = ''07/01/25'', description = ''Payment-KTB Internet'', amount = ''-8,851.33'', statement_id = ''2024-12-25'', page = ''1''\<rparr>,
        \<lparr>transaction_date = ''18/12/24'',
          posting_date = ''20/12/24'', description = ''SHOPEE BANGKOK TH'', amount = ''199.00'', statement_id = ''2024-12-25'', page = ''1''\<rparr>]"
    by code_simp
  from pipe_lines_parsed [of ?raw "''2024-12-25''" "''1''" ?out] h g g' r m m'
  show ?thesis by presburger
qed

text \<open>
  C2 as stated fails on whole texts: a well-shaped line whose description contains
  "ERROR" is lost by \<^verbatim>\<open>parse_transactions\<close>, one whose description contains
  "NO_TRANSACTIONS" by \<^verbatim>\<open>extract_transactions_with_opencode\<close>.
\<close>

theorem pipe_lines_counterexample:
  "4 \<le> length (split_on CHR ''|'' ''03/02/25|04/02/25|TERROR BOOKS|250.00'')
   \<and> date_match (hd (split_on CHR ''|'' ''03/02/25|04/02/25|TERROR BOOKS|250.00''))
   \<and> parse_transactions ''03/02/25|04/02/25|TERROR BOOKS|250.00'' ''2025-02-25'' ''1'' = []
   \<and> 4 \<le> length (split_on CHR ''|'' ''05/02/25|06/02/25|NO_TRANSACTIONS CAFE|80.00'')
   \<and> date_match (hd (split_on CHR ''|'' ''05/02/25|06/02/25|NO_TRANSACTIONS CAFE|80.00''))
   \<and> extract_transactions_with_opencode ''05/02/25|06/02/25|NO_TRANSACTIONS CAFE|80.00''
        ''2025-02-25'' ''1'' = []"
  by code_simp

section \<open>What the parse stage validates\<close>

lemma digit_not_bar: "is_digit c \<Longrightarrow> c \<noteq> CHR ''|''"
  by (auto simp: is_digit_def)

lemma date_match_hd_split:
  assumes "date_match s"
  shows "date_match (hd (split_on CHR ''|'' s))"
  using assms
proof (induction s rule: date_match.induct)
  case (1 a b s1 c d s2 e f rest)
  then have dg: "is_digit a" "is_digit b" "is_digit c" "is_digit d" "is_digit e" "is_digit f"
    and sl: "s1 = CHR ''/''" "s2 = CHR ''/''"
    by simp_all
  have nb: "a \<noteq> CHR ''|''" "b \<noteq> CHR ''|''" "c \<noteq> CHR ''|''" "d \<noteq> CHR ''|''"
    "e \<noteq> CHR ''|''" "f \<noteq> CHR ''|''"
    using dg by (simp_all add: digit_not_bar)
  from sl have nb': "s1 \<noteq> CHR ''|''" "s2 \<noteq> CHR ''|''" by simp_all
  have "hd (split_on CHR ''|'' (a # b # s1 # c # d # s2 # e # f # rest))
      = a # b # s1 # c # d # s2 # e # f # hd (split_on CHR ''|'' rest)"
    by (simp only: split_on_Cons_other [OF nb(1)] split_on_Cons_other [OF nb(2)]
        split_on_Cons_other [OF nb(3)] split_on_Cons_other [OF nb(4)]
        split_on_Cons_other [OF nb(5)] split_on_Cons_other [OF nb(6)]
        split_on_Cons_other [OF nb'(1)] split_on_Cons_other [OF nb'(2)] list.sel)
  with dg sl show ?case by simp
qed simp_all

lemma parse_line_date:
  "parse_line sid pg raw = Some t \<Longrightarrow> date_match (transaction_date t)"
  by (auto simp: parse_line_def Let_def split: if_splits)

lemma opencode_line_date:
  assumes "opencode_line sid pg raw = Some t"
  shows "date_match (transaction_date t)"
proof -
  from assms have dm: "date_match (strip raw)"
    and t: "transaction_date t = strip (split_on CHR ''|'' (strip raw) ! 0)"
    by (auto simp: opencode_line_def Let_def split: if_splits)
  have "split_on CHR ''|'' (strip raw) ! 0 = hd (split_on CHR ''|'' (strip raw))"
    using split_on_nonempty [of "CHR ''|''" "strip raw"] by (simp add: hd_conv_nth)
  with dm t show ?thesis by (simp add: date_match_hd_split date_match_strip)
qed

lemma set_map_filter: "t \<in> set (List.map_filter f xs) \<longleftrightarrow> (\<exists>x \<in> set xs. f x = Some t)"
  by (induction xs) (auto simp: map_filter_simps split: option.splits)

text \<open>
  C3 (as amended). A record leaves the parse stage only if its transaction date matches
  the date-token shape; the posting date and the amount are forwarded as they are.
\<close>

theorem forwarded_records_have_date:
  "(t \<in> set (parse_transactions output sid pg) \<longrightarrow> date_match (transaction_date t))
   \<and> (t \<in> set (extract_transactions_with_opencode output sid pg) \<longrightarrow>
        date_match (transaction_date t))"
  by (auto simp: parse_transactions_def extract_transactions_with_opencode_def Let_def
      parse_lines_map_filter opencode_lines_map_filter set_map_filter
      dest: parse_line_date opencode_line_date split: if_splits)

theorem forwarded_records_have_date_witness:
  "\<lparr>transaction_date = ''19/05/25'', posting_date = ''20/05/25'',
     description = ''ANTHROPIC ANTHROPIC.COMUS USD 5.35'', amount = ''182.70'',
     statement_id = ''2025-05-25'', page = ''1''\<rparr>
     \<in> set (parse_transactions ''19/05/25|20/05/25|ANTHROPIC ANTHROPIC.COMUS USD 5.35|182.70''
          ''2025-05-25'' ''1'')
   \<and> date_match ''19/05/25''"
proof -
  have "parse_transactions ''19/05/25|20/05/25|ANTHROPIC ANTHROPIC.COMUS USD 5.35|182.70''
          ''2025-05-25'' ''1'' =
     [\<lparr>transaction_date = ''19/05/25'', posting_date = ''20/05/25'',
       description = ''ANTHROPIC ANTHROPIC.COMUS USD 5.35'', amount = ''182.70'',
       statement_id = ''2025-05-25'', page = ''1''\<rparr>]"
    by code_simp
  then have m: "\<lparr>transaction_date = ''19/05/25'', posting_date = ''20/05/25'',
     description = ''ANTHROPIC ANTHROPIC.COMUS USD 5.35'', amount = ''182.70'',
     statement_id = ''2025-05-25'', page = ''1''\<rparr>
     \<in> set (parse_transactions ''19/05/25|20/05/25|ANTHROPIC ANTHROPIC.COMUS USD 5.35|182.70''
          ''2025-05-25'' ''1'')"
    by simp
  with forwarded_records_have_date
    [of "\<lparr>transaction_date = ''19/05/25'', posting_date = ''20/05/25'',
     description = ''ANTHROPIC ANTHROPIC.COMUS USD 5.35'', amount = ''182.70'',
     statement_id = ''2025-05-25'', page = ''1''\<rparr>"
     "''19/05/25|20/05/25|ANTHROPIC ANTHROPIC.COMUS USD 5.35|182.70''" "''2025-05-25''" "''1''"]
  show ?thesis by simp
qed

text \<open>
  C3 as stated fails: both parsers forward a record whose posting date is no date token
  and whose amount \<^verbatim>\<open>float\<close> rejects.
\<close>

theorem record_validator_counterexample:
  "parse_transactions ''19/05/25|next week|CORNER SHOP|N/A'' ''2025-05-25'' ''1'' =
     [\<lparr>transaction_date = ''19/05/25'', posting_date = ''next week'',
       description = ''CORNER SHOP'', amount = ''N/A'',
       statement_id = ''2025-05-25'', page = ''1''\<rparr>]
   \<and> extract_transactions_with_opencode ''19/05/25|next week|CORNER SHOP|N/A'' ''2025-05-25'' ''1'' =
     [\<lparr>transaction_date = ''19/05/25'', posting_date = ''next week'',
       description = ''CORNER SHOP'', amount = ''N/A'',
       statement_id = ''2025-05-25'', page = ''1''\<rparr>]
   \<and> \<not> date_match ''next week''
   \<and> amount_value ''N/A'' = None"
  by code_simp

section \<open>The fixed-column parser: results\<close>











section \<open>The classify-and-filter mode: results\<close>







section \<open>Rounding to binary64: results\<close>

lemma float_surrounding_whitespace:
  "py_float ('' 12.50'' @ [CHR 0x0A]) = Some (Finite (25 / 2))
   \<and> py_float ([CHR 0x1F] @ ''12.50'') = None
   \<and> py_float (''12.50'' @ [CHR 0x1C]) = None"
  by code_simp

lemma two_powi_pos: "0 < (2::rat) powi k"
  by simp

lemma two_powi_mono: "k \<le> l \<Longrightarrow> (2::rat) powi k \<le> 2 powi l"
  by (rule power_int_increasing) simp_all

lemma two_powi_strict_mono: "k < l \<Longrightarrow> (2::rat) powi k < 2 powi l"
  by (rule power_int_strict_increasing) simp_all

lemma two_powi_less_cancel: "(2::rat) powi k < 2 powi l \<Longrightarrow> k < l"
  using two_powi_mono [of l k] by (cases "k < l") auto

lemma two_powi_nat: "0 \<le> k \<Longrightarrow> (2::rat) powi k = 2 ^ nat k"
  by (simp add: power_int_def)

lemma bitlen_rat_bounds:
  assumes "0 < n"
  shows "(2::rat) powi (bitlen n - 1) \<le> of_int n" and "of_int n < (2::rat) powi bitlen n"
proof -
  from assms have b1: "1 \<le> bitlen n" by (auto simp: bitlen_alt_def)
  from bitlen_bounds [OF assms]
  have lo: "2 ^ nat (bitlen n - 1) \<le> n" and hi: "n < 2 ^ nat (bitlen n)" by simp_all
  from lo have "(of_int (2 ^ nat (bitlen n - 1)) :: rat) \<le> of_int n"
    by (simp only: of_int_le_iff)
  then show "(2::rat) powi (bitlen n - 1) \<le> of_int n"
    using b1 by (simp add: two_powi_nat)
  from hi have "(of_int n :: rat) < of_int (2 ^ nat (bitlen n))"
    by (simp only: of_int_less_iff)
  then show "of_int n < (2::rat) powi bitlen n"
    using b1 by (simp add: two_powi_nat)
qed

lemma ilog2_bounds:
  assumes "0 < a"
  shows "2 powi (ilog2 a) \<le> a \<and> a < 2 powi (ilog2 a + 1)"
proof -
  obtain n d where q: "quotient_of a = (n, d)" by (cases "quotient_of a")
  then have d: "0 < d" and a: "a = of_int n / of_int d"
    by (simp_all add: quotient_of_denom_pos quotient_of_div)
  from assms a d have n: "0 < n" by (simp add: zero_less_divide_iff)
  let ?k = "bitlen n - bitlen d"
  note bn = bitlen_rat_bounds [OF n] and bd = bitlen_rat_bounds [OF d]
  have dpos: "(0::rat) < of_int d" using d by simp
  have "a < 2 powi bitlen n / 2 powi (bitlen d - 1)"
  proof -
    have "a < 2 powi bitlen n / of_int d"
      unfolding a using bn(2) dpos by (simp add: divide_strict_right_mono)
    also have "\<dots> \<le> 2 powi bitlen n / 2 powi (bitlen d - 1)"
      using bd(1) dpos by (simp add: frac_le)
    finally show ?thesis .
  qed
  then have up: "a < 2 powi (?k + 1)"
    by (simp add: power_int_diff power_int_add)
  have "2 powi (bitlen n - 1) / 2 powi bitlen d < a"
  proof -
    have "(2::rat) powi (bitlen n - 1) / 2 powi bitlen d < 2 powi (bitlen n - 1) / of_int d"
      using bd(2) dpos by (intro divide_strict_left_mono) simp_all
    also have "\<dots> \<le> a"
      unfolding a using bn(1) dpos by (simp add: divide_right_mono)
    finally show ?thesis .
  qed
  then have lo: "2 powi (?k - 1) < a"
    by (simp add: power_int_diff)
  show ?thesis
  proof (cases "2 powi ?k \<le> a")
    case True
    then have "ilog2 a = ?k" by (simp add: ilog2_def q)
    with True up show ?thesis by simp
  next
    case False
    then have i: "ilog2 a = ?k - 1" by (simp add: ilog2_def q)
    from False lo show ?thesis unfolding i by simp
  qed
qed

lemma ilog2_unique:
  assumes "0 < a" "2 powi k \<le> a" "a < 2 powi (k + 1)"
  shows "ilog2 a = k"
proof -
  from ilog2_bounds [OF assms(1)]
  have lo: "2 powi (ilog2 a) \<le> a" and hi: "a < 2 powi (ilog2 a + 1)" by simp_all
  from lo assms(3) have "(2::rat) powi (ilog2 a) < 2 powi (k + 1)" by simp
  then have 1: "ilog2 a < k + 1" by (rule two_powi_less_cancel)
  from assms(2) hi have "(2::rat) powi k < 2 powi (ilog2 a + 1)" by simp
  then have 2: "k < ilog2 a + 1" by (rule two_powi_less_cancel)
  from 1 2 show ?thesis by simp
qed


lemma rhe_cases: "round_half_even q = \<lfloor>q\<rfloor> \<or> round_half_even q = \<lfloor>q\<rfloor> + 1"
  by (simp add: round_half_even_def Let_def)

lemma rhe_int [simp]: "round_half_even (of_int n) = n"
  by (simp add: round_half_even_def)


lemma rhe_le:
  assumes "q \<le> of_int n"
  shows "round_half_even q \<le> n"
proof (cases "q = of_int n")
  case True
  then show ?thesis by simp
next
  case False
  with assms have "q < of_int n" by simp
  then have "\<lfloor>q\<rfloor> < n" by (simp add: floor_less_iff)
  with rhe_cases [of q] show ?thesis by auto
qed


lemma round64_pos:
  assumes "0 < x"
  shows "round64 x =
     (if 971 < expo x \<or> (expo x = 971 \<and> mant x = 2 ^ 53) then PosInf
      else Finite (of_int (mant x) * 2 powi expo x))"
proof -
  from assms have a: "\<bar>x\<bar> = x" and n: "(x = 0) = False" "(x < 0) = False"
    by simp_all
  show ?thesis
    by (simp only: round64_def expo_def mant_def Let_def a n if_False)
qed

lemma round64_neg:
  assumes "x < 0"
  shows "round64 x =
     (if 971 < expo (- x) \<or> (expo (- x) = 971 \<and> mant (- x) = 2 ^ 53) then NegInf
      else Finite (- (of_int (mant (- x)) * 2 powi expo (- x))))"
proof -
  from assms have a: "\<bar>x\<bar> = - x" and n: "(x = 0) = False" "(x < 0) = True"
    by simp_all
  show ?thesis
    by (simp only: round64_def expo_def mant_def Let_def a n if_False if_True)
qed




lemma scaled_less:
  assumes "0 < x"
  shows "x / 2 powi expo x < 2 powi (ilog2 x + 1 - expo x)"
proof -
  from ilog2_bounds [OF assms] have "x < 2 powi (ilog2 x + 1)" by simp
  then have "x / 2 powi expo x < 2 powi (ilog2 x + 1) / 2 powi expo x"
    by (simp add: divide_strict_right_mono)
  then show ?thesis by (simp add: power_int_diff)
qed





lemma mant_subnormal:
  assumes "0 < x" "ilog2 x - 52 < - 1074"
  shows "mant x \<le> 2 ^ 52"
proof -
  from assms(2) have e: "expo x = - 1074" by (simp add: expo_def)
  from assms(2) have "ilog2 x + 1 - expo x \<le> 52" by (simp add: e)
  then have "(2::rat) powi (ilog2 x + 1 - expo x) \<le> 2 powi 52" by (rule two_powi_mono)
  with scaled_less [OF assms(1)] have "x / 2 powi expo x \<le> 2 powi 52" by simp
  then have "x / 2 powi expo x \<le> of_int (2 ^ 52)" by (simp add: two_powi_nat)
  then show ?thesis unfolding mant_def by (rule rhe_le)
qed

text \<open>A positive number written with a mantissa and an exponent in canonical form.\<close>

lemma canonical_expo_mant:
  assumes m: "0 < m" "m < 2 ^ 53" and e: "- 1074 \<le> e" and c: "2 ^ 52 \<le> m \<or> e = - 1074"
  shows "expo (of_int m * 2 powi e) = e" and "mant (of_int m * 2 powi e) = m"
proof -
  let ?r = "of_int m * (2::rat) powi e"
  from m have rpos: "0 < ?r" by simp
  have mr: "(of_int m :: rat) < 2 powi 53"
  proof -
    from m(2) have "(of_int m :: rat) < of_int (2 ^ 53)" by (simp only: of_int_less_iff)
    then show ?thesis by (simp add: two_powi_nat)
  qed
  have up: "?r < 2 powi (53 + e)"
  proof -
    from mr have "?r < 2 powi 53 * 2 powi e" by (simp add: mult_strict_right_mono)
    then show ?thesis by (simp add: power_int_add)
  qed
  show ex: "expo ?r = e"
  proof (cases "2 ^ 52 \<le> m")
    case True
    then have "(of_int (2 ^ 52) :: rat) \<le> of_int m" by (simp only: of_int_le_iff)
    then have "(2::rat) powi 52 \<le> of_int m" by (simp add: two_powi_nat)
    then have "2 powi 52 * 2 powi e \<le> ?r" by (simp add: mult_right_mono)
    then have lo: "2 powi (52 + e) \<le> ?r" by (simp add: power_int_add)
    from up have "?r < 2 powi ((52 + e) + 1)" by (simp add: add.commute add.left_commute)
    with rpos lo have "ilog2 ?r = 52 + e" by (intro ilog2_unique)
    with e show ?thesis by (simp add: expo_def)
  next
    case False
    with c have e': "e = - 1074" by simp
    from False have "m < 2 ^ 52" by simp
    then have "(of_int m :: rat) < of_int (2 ^ 52)" by (simp only: of_int_less_iff)
    then have "(of_int m :: rat) < 2 powi 52" by (simp add: two_powi_nat)
    then have "?r < 2 powi 52 * 2 powi e" by (simp add: mult_strict_right_mono)
    then have "?r < 2 powi (52 + e)" by (simp add: power_int_add)
    with ilog2_bounds [OF rpos] have "(2::rat) powi (ilog2 ?r) < 2 powi (52 + e)" by simp
    then have "ilog2 ?r < 52 + e" by (rule two_powi_less_cancel)
    with e' show ?thesis by (simp add: expo_def)
  qed
  have "?r / 2 powi expo ?r = of_int m" by (simp add: ex)
  then show "mant ?r = m" by (simp add: mant_def)
qed

lemma round64_canonical:
  assumes "0 < m" "m < 2 ^ 53" "- 1074 \<le> e" "2 ^ 52 \<le> m \<or> e = - 1074" "e \<le> 971"
  shows "round64 (of_int m * 2 powi e) = Finite (of_int m * 2 powi e)"
proof -
  from assms(1) have "0 < of_int m * (2::rat) powi e" by simp
  with canonical_expo_mant [OF assms(1-4)] assms(2,5) show ?thesis
    by (simp add: round64_pos)
qed




lemma round64_minus:
  assumes "0 < x" "round64 x = Finite r"
  shows "round64 (- x) = Finite (- r)"
proof -
  from assms(1) have "- x < 0" by simp
  from round64_neg [OF this] assms show ?thesis
    by (auto simp: round64_pos split: if_splits)
qed

lemma round64_int_pos:
  assumes "0 < n" "n \<le> 2 ^ 53"
  shows "round64 (of_int n) = Finite (of_int n)"
proof (cases "n = 2 ^ 53")
  case True
  have "round64 (of_int (2 ^ 52) * 2 powi 1) = Finite (of_int (2 ^ 52) * 2 powi 1)"
    by (intro round64_canonical) simp_all
  with True show ?thesis by simp
next
  case False
  with assms have lt: "n < 2 ^ 53" by simp
  let ?x = "of_int n :: rat"
  from assms have x: "0 < ?x" by simp
  from lt have "?x < of_int (2 ^ 53)" by (simp only: of_int_less_iff)
  then have "?x < 2 powi 53" by (simp add: two_powi_nat)
  with ilog2_bounds [OF x] have "(2::rat) powi (ilog2 ?x) < 2 powi 53" by simp
  then have "ilog2 ?x < 53" by (rule two_powi_less_cancel)
  then have e: "expo ?x \<le> 0" by (simp add: expo_def)
  have "?x / 2 powi expo ?x = ?x * 2 powi (- expo ?x)"
    by (simp add: power_int_minus field_simps)
  also have "\<dots> = ?x * 2 ^ nat (- expo ?x)"
    using e by (simp add: two_powi_nat)
  also have "\<dots> = of_int (n * 2 ^ nat (- expo ?x))" by simp
  finally have s: "?x / 2 powi expo ?x = of_int (n * 2 ^ nat (- expo ?x))" .
  have m: "mant ?x = n * 2 ^ nat (- expo ?x)"
    by (simp only: mant_def s rhe_int)
  have "of_int (mant ?x) * 2 powi expo ?x = ?x"
  proof -
    have "of_int (mant ?x) = ?x / 2 powi expo ?x" by (simp only: m s)
    then show ?thesis by simp
  qed
  with e x show ?thesis by (simp add: round64_pos)
qed

lemma round64_int:
  assumes "\<bar>n\<bar> \<le> 2 ^ 53"
  shows "round64 (of_int n) = Finite (of_int n)"
proof -
  consider "n = 0" | "0 < n" | "n < 0" by linarith
  then show ?thesis
  proof cases
    case 1
    then show ?thesis by (simp add: round64_def)
  next
    case 2
    with assms show ?thesis by (intro round64_int_pos) simp_all
  next
    case 3
    with assms have p: "0 < - n" "- n \<le> 2 ^ 53" by simp_all
    from round64_int_pos [OF p] have "round64 (of_int (- n)) = Finite (of_int (- n))" .
    moreover from 3 have "0 < (of_int (- n) :: rat)" by simp
    ultimately have "round64 (- of_int (- n)) = Finite (- of_int (- n))"
      by (rule round64_minus [rotated])
    then show ?thesis by simp
  qed
qed

section \<open>Aggregation: results\<close>

lemma count_of_bucket_for [simp]: "count_of (bucket_for amounts) = length amounts"
  by (simp add: count_of_def bucket_for_def)

lemma total_of_bucket_for [simp]:
  "total_of (bucket_for amounts) = fsum (List.map_filter amount_value amounts)"
  by (simp add: total_of_def bucket_for_def fsum_def map_filter_simps)

lemma map_filter_append: "List.map_filter f (xs @ ys) = List.map_filter f xs @ List.map_filter f ys"
  by (simp add: List.map_filter_def)

lemma fsum_snoc: "fsum (xs @ [x]) = fadd (fsum xs) x"
  by (simp add: fsum_def)

lemma bucket_for_snoc:
  "amount_value s = Some amt \<Longrightarrow>
   bucket_for (amounts @ [s]) =
     Some \<lparr>bucket_count = count_of (bucket_for amounts) + 1,
           bucket_total = fadd (total_of (bucket_for amounts)) amt\<rparr>"
  by (simp add: bucket_for_def [of "amounts @ [s]"] map_filter_append map_filter_simps fsum_snoc)

lemma add_to_bucket_apply:
  "add_to_bucket m name amt L =
     (if L = name
      then Some \<lparr>bucket_count = count_of (m L) + 1, bucket_total = fadd (total_of (m L)) amt\<rparr>
      else m L)"
  by (simp add: add_to_bucket_def count_of_def total_of_def Let_def split: option.splits)

lemma summary_step:
  assumes "amount_value (amount row) = Some amt"
  shows "add_to_bucket (summary_buckets pre) (summary_service (description row)) amt
           = summary_buckets (pre @ [row])"
    and "fadd (amounts_total (map amount pre)) amt = amounts_total (map amount (pre @ [row]))"
proof -
  show "add_to_bucket (summary_buckets pre) (summary_service (description row)) amt
           = summary_buckets (pre @ [row])"
  proof
    fix L
    show "add_to_bucket (summary_buckets pre) (summary_service (description row)) amt L
           = summary_buckets (pre @ [row]) L"
      using assms by (simp add: add_to_bucket_apply summary_buckets_def bucket_for_snoc)
  qed
  show "fadd (amounts_total (map amount pre)) amt = amounts_total (map amount (pre @ [row]))"
    using assms by (simp add: amounts_total_def map_filter_append map_filter_simps fsum_snoc)
qed

lemma summary_loop_from:
  "summary_loop rest (summary_buckets pre, amounts_total (map amount pre)) =
     (if \<exists>row \<in> set rest. amount_value (amount row) = None then Inl ValueError
      else Inr (summary_buckets (pre @ rest), amounts_total (map amount (pre @ rest))))"
proof (induction rest arbitrary: pre)
  case Nil
  show ?case by simp
next
  case (Cons row rest)
  show ?case
  proof (cases "amount_value (amount row)")
    case None
    then show ?thesis by simp
  next
    case (Some amt)
    from Cons [of "pre @ [row]"] Some summary_step [OF Some, of pre]
    show ?thesis by simp
  qed
qed

lemma brain_step:
  "(case amount_value (amount t) of
      None \<Rightarrow> (brain_buckets pre, amounts_total (map amount pre))
    | Some amt \<Rightarrow> (add_to_bucket (brain_buckets pre) (service t) amt,
                   fadd (amounts_total (map amount pre)) amt))
   = (brain_buckets (pre @ [t]), amounts_total (map amount (pre @ [t])))"
proof (cases "amount_value (amount t)")
  case None
  then show ?thesis
    by (simp add: brain_buckets_def amounts_total_def map_filter_append map_filter_simps)
next
  case (Some amt)
  have "add_to_bucket (brain_buckets pre) (service t) amt = brain_buckets (pre @ [t])"
  proof
    fix L
    show "add_to_bucket (brain_buckets pre) (service t) amt L = brain_buckets (pre @ [t]) L"
      using Some by (simp add: add_to_bucket_apply brain_buckets_def bucket_for_snoc)
  qed
  with Some show ?thesis
    by (simp add: amounts_total_def map_filter_append map_filter_simps fsum_snoc)
qed

lemma brain_loop_from:
  "brain_loop rest (brain_buckets pre, amounts_total (map amount pre)) =
     (brain_buckets (pre @ rest), amounts_total (map amount (pre @ rest)))"
proof (induction rest arbitrary: pre)
  case Nil
  show ?case by simp
next
  case (Cons t rest)
  from Cons [of "pre @ [t]"] brain_step [where t = t and pre = pre] show ?case by simp
qed

lemma empty_state:
  "summary_buckets [] = Map.empty" "brain_buckets [] = Map.empty" "amounts_total [] = Finite 0"
  by (simp_all add: summary_buckets_def brain_buckets_def bucket_for_def amounts_total_def
      fsum_def map_filter_simps)

lemma generate_summary_eq:
  "generate_summary rows =
     (if \<exists>row \<in> set rows. amount_value (amount row) = None then Inl ValueError
      else Inr (summary_buckets rows, amounts_total (map amount rows)))"
  using summary_loop_from [of rows "[]"] by (simp add: generate_summary_def empty_state)

lemma save_and_summarize_eq:
  "save_and_summarize ts = (brain_buckets ts, amounts_total (map amount ts))"
  using brain_loop_from [of ts "[]"] by (simp add: save_and_summarize_def empty_state)















section \<open>Exactness of the accumulation\<close>

lemma amount_value_exact: "amount_exact s = Some q \<Longrightarrow> amount_value s = Some (round64 q)"
  by (auto simp: amount_exact_def amount_value_def py_float_def
      split: option.splits literal.splits)

lemma whole_amountD:
  assumes "whole_amount s"
  obtains n where "amount_exact s = Some (of_int n)" "exact_value s = of_int n"
proof -
  from assms obtain q where q: "amount_exact s = Some q" "q = of_int \<lfloor>q\<rfloor>"
    by (auto simp: whole_amount_def split: option.splits)
  then have "amount_exact s = Some (of_int \<lfloor>q\<rfloor>)" "exact_value s = of_int \<lfloor>q\<rfloor>"
    by (simp_all add: exact_value_def)
  then show ?thesis by (rule that)
qed

lemma of_int_bound: "\<bar>of_int n :: rat\<bar> \<le> 2 ^ 53 \<Longrightarrow> \<bar>n\<bar> \<le> 2 ^ 53"
proof -
  assume "\<bar>of_int n :: rat\<bar> \<le> 2 ^ 53"
  then have "(of_int \<bar>n\<bar> :: rat) \<le> of_int (2 ^ 53)" by simp
  then show ?thesis by (simp only: of_int_le_iff)
qed

lemma foldl_whole:
  assumes "\<forall>s \<in> set amounts. whole_amount s"
    and "\<bar>of_int n0 :: rat\<bar> + sum_list (map (\<lambda>s. \<bar>exact_value s\<bar>) amounts) \<le> 2 ^ 53"
  shows "foldl fadd (Finite (of_int n0)) (List.map_filter amount_value amounts)
           = Finite (of_int n0 + sum_list (map exact_value amounts))"
  using assms
proof (induction amounts arbitrary: n0)
  case Nil
  show ?case by (simp add: map_filter_simps)
next
  case (Cons s amounts)
  from Cons.prems(1) have w: "whole_amount s" and ws: "\<forall>s \<in> set amounts. whole_amount s"
    by simp_all
  from w obtain n where n: "amount_exact s = Some (of_int n)" "exact_value s = of_int n"
    by (rule whole_amountD)
  have nn: "0 \<le> sum_list (map (\<lambda>s. \<bar>exact_value s\<bar>) amounts)"
    by (rule sum_list_nonneg) auto
  from Cons.prems(2) n(2)
  have b: "\<bar>of_int n0 :: rat\<bar> + \<bar>of_int n\<bar> + sum_list (map (\<lambda>s. \<bar>exact_value s\<bar>) amounts) \<le> 2 ^ 53"
    by simp
  from b nn have "\<bar>of_int n :: rat\<bar> \<le> 2 ^ 53" by linarith
  then have "round64 (of_int n) = Finite (of_int n)"
    by (intro round64_int of_int_bound)
  with n(1) have v: "amount_value s = Some (Finite (of_int n))"
    by (simp add: amount_value_exact)
  have "\<bar>of_int (n0 + n) :: rat\<bar> \<le> \<bar>of_int n0\<bar> + \<bar>of_int n\<bar>" by simp
  with b have b': "\<bar>of_int (n0 + n) :: rat\<bar> + sum_list (map (\<lambda>s. \<bar>exact_value s\<bar>) amounts) \<le> 2 ^ 53"
    by linarith
  with nn have "\<bar>of_int (n0 + n) :: rat\<bar> \<le> 2 ^ 53" by linarith
  then have r: "round64 (of_int (n0 + n)) = Finite (of_int (n0 + n))"
    by (intro round64_int of_int_bound)
  have "fadd (Finite (of_int n0)) (Finite (of_int n)) = Finite (of_int (n0 + n))"
    using r by simp
  with Cons.IH [OF ws b'] v n(2) show ?case
    by (simp add: map_filter_simps add.assoc)
qed

lemma amounts_total_whole:
  assumes "\<forall>s \<in> set amounts. whole_amount s"
    and "sum_list (map (\<lambda>s. \<bar>exact_value s\<bar>) amounts) \<le> 2 ^ 53"
  shows "amounts_total amounts = Finite (sum_list (map exact_value amounts))"
  using foldl_whole [of amounts 0] assms by (simp add: amounts_total_def fsum_def)

lemma sum_abs_filter:
  "sum_list (map (\<lambda>s. \<bar>exact_value s\<bar>) (map amount (filter P rows)))
     \<le> sum_list (map (\<lambda>s. \<bar>exact_value s\<bar>) (map amount rows))"
  by (induction rows) auto

lemma bucket_for_whole:
  assumes "\<forall>s \<in> set amounts. whole_amount s"
    and "sum_list (map (\<lambda>s. \<bar>exact_value s\<bar>) amounts) \<le> 2 ^ 53"
  shows "bucket_for amounts = exact_bucket amounts"
  using amounts_total_whole [OF assms]
  by (simp add: bucket_for_def exact_bucket_def amounts_total_def)

lemma whole_parses: "whole_amount s \<Longrightarrow> amount_value s \<noteq> None"
  by (erule whole_amountD) (simp add: amount_value_exact)

text \<open>
  C7 (as amended). The totals are accumulated in binary floating point. They equal the
  exact sums of the amounts when every amount is a whole number and the absolute values
  of the amounts sum to at most \<open>2 ^ 53\<close>.
\<close>

theorem whole_amounts_exact:
  "((\<forall>row \<in> set rows. whole_amount (amount row)) \<and>
     sum_list (map (\<lambda>s. \<bar>exact_value s\<bar>) (map amount rows)) \<le> 2 ^ 53 \<longrightarrow>
     generate_summary rows =
       Inr (\<lambda>L. exact_bucket
                  (map amount (filter (\<lambda>row. summary_service (description row) = L) rows)),
            Finite (sum_list (map exact_value (map amount rows)))))
   \<and> ((\<forall>t \<in> set ts. whole_amount (amount t)) \<and>
     sum_list (map (\<lambda>s. \<bar>exact_value s\<bar>) (map amount ts)) \<le> 2 ^ 53 \<longrightarrow>
     save_and_summarize ts =
       (\<lambda>L. exact_bucket (map amount (filter (\<lambda>t. service t = L) ts)),
        Finite (sum_list (map exact_value (map amount ts)))))"
proof (intro conjI impI)
  assume h: "(\<forall>row \<in> set rows. whole_amount (amount row)) \<and>
     sum_list (map (\<lambda>s. \<bar>exact_value s\<bar>) (map amount rows)) \<le> 2 ^ 53"
  then have w: "\<forall>row \<in> set rows. whole_amount (amount row)"
    and b: "sum_list (map (\<lambda>s. \<bar>exact_value s\<bar>) (map amount rows)) \<le> 2 ^ 53"
    by simp_all
  from w have p: "\<not> (\<exists>row \<in> set rows. amount_value (amount row) = None)"
    by (auto dest: whole_parses)
  have t: "amounts_total (map amount rows) = Finite (sum_list (map exact_value (map amount rows)))"
    using w b by (intro amounts_total_whole) auto
  have "summary_buckets rows =
      (\<lambda>L. exact_bucket (map amount (filter (\<lambda>row. summary_service (description row) = L) rows)))"
    unfolding summary_buckets_def
  proof
    fix L
    let ?P = "\<lambda>row. summary_service (description row) = L"
    from sum_abs_filter [of ?P rows] b
    have "sum_list (map (\<lambda>s. \<bar>exact_value s\<bar>) (map amount (filter ?P rows))) \<le> 2 ^ 53"
      by linarith
    with w show "bucket_for (map amount (filter ?P rows)) = exact_bucket (map amount (filter ?P rows))"
      by (intro bucket_for_whole) auto
  qed
  with p t show "generate_summary rows =
       Inr (\<lambda>L. exact_bucket
                  (map amount (filter (\<lambda>row. summary_service (description row) = L) rows)),
            Finite (sum_list (map exact_value (map amount rows))))"
    by (simp only: generate_summary_eq if_False)
next
  assume h: "(\<forall>t \<in> set ts. whole_amount (amount t)) \<and>
     sum_list (map (\<lambda>s. \<bar>exact_value s\<bar>) (map amount ts)) \<le> 2 ^ 53"
  then have w: "\<forall>t \<in> set ts. whole_amount (amount t)"
    and b: "sum_list (map (\<lambda>s. \<bar>exact_value s\<bar>) (map amount ts)) \<le> 2 ^ 53"
    by simp_all
  have t: "amounts_total (map amount ts) = Finite (sum_list (map exact_value (map amount ts)))"
    using w b by (intro amounts_total_whole) auto
  have "brain_buckets ts = (\<lambda>L. exact_bucket (map amount (filter (\<lambda>t. service t = L) ts)))"
    unfolding brain_buckets_def
  proof
    fix L
    let ?P = "\<lambda>t. service t = L"
    let ?Q = "\<lambda>t. service t = L \<and> amount_value (amount t) \<noteq> None"
    from w have "filter ?Q ts = filter ?P ts"
      by (intro filter_cong) (auto dest: whole_parses)
    moreover from sum_abs_filter [of ?P ts] b
    have "sum_list (map (\<lambda>s. \<bar>exact_value s\<bar>) (map amount (filter ?P ts))) \<le> 2 ^ 53"
      by linarith
    with w have "bucket_for (map amount (filter ?P ts)) = exact_bucket (map amount (filter ?P ts))"
      by (intro bucket_for_whole) auto
    ultimately show "bucket_for (map amount (filter ?Q ts)) = exact_bucket (map amount (filter ?P ts))"
      by simp
  qed
  with t show "save_and_summarize ts =
       (\<lambda>L. exact_bucket (map amount (filter (\<lambda>t. service t = L) ts)),
        Finite (sum_list (map exact_value (map amount ts))))"
    by (simp only: save_and_summarize_eq)
qed

theorem whole_amounts_exact_witness:
  "whole_amount ''1,250.00'' \<and> whole_amount ''100.00''
   \<and> whole_amount ''300.00'' \<and> whole_amount ''-50.00''
   \<and> sum_list (map (\<lambda>s. \<bar>exact_value s\<bar>) (map amount
       [\<lparr>transaction_date = ''05/09/25'', posting_date = ''06/09/25'',
       description = ''ANTHROPIC ANTHROPIC.COMUS'', amount = ''1,250.00'',
       statement_id = ''2025-09-25'', page = ''1''\<rparr>,
      \<lparr>transaction_date = ''07/09/25'', posting_date = ''08/09/25'',
       description = ''OPENROUTER, INC'', amount = ''100.00'',
       statement_id = ''2025-09-25'', page = ''1''\<rparr>])) \<le> 2 ^ 53
   \<and> generate_summary
       [\<lparr>transaction_date = ''05/09/25'', posting_date = ''06/09/25'',
       description = ''ANTHROPIC ANTHROPIC.COMUS'', amount = ''1,250.00'',
       statement_id = ''2025-09-25'', page = ''1''\<rparr>,
      \<lparr>transaction_date = ''07/09/25'', posting_date = ''08/09/25'',
       description = ''OPENROUTER, INC'', amount = ''100.00'',
       statement_id = ''2025-09-25'', page = ''1''\<rparr>] =
       Inr (\<lambda>L. exact_bucket (map amount (filter (\<lambda>row. summary_service (description row) = L)
       [\<lparr>transaction_date = ''05/09/25'', posting_date = ''06/09/25'',
       description = ''ANTHROPIC ANTHROPIC.COMUS'', amount = ''1,250.00'',
       statement_id = ''2025-09-25'', page = ''1''\<rparr>,
      \<lparr>transaction_date = ''07/09/25'', posting_date = ''08/09/25'',
       description = ''OPENROUTER, INC'', amount = ''100.00'',
       statement_id = ''2025-09-25'', page = ''1''\<rparr>])),
            Finite (sum_list (map exact_value (map amount
       [\<lparr>transaction_date = ''05/09/25'', posting_date = ''06/09/25'',
       description = ''ANTHROPIC ANTHROPIC.COMUS'', amount = ''1,250.00'',
       statement_id = ''2025-09-25'', page = ''1''\<rparr>,
      \<lparr>transaction_date = ''07/09/25'', posting_date = ''08/09/25'',
       description = ''OPENROUTER, INC'', amount = ''100.00'',
       statement_id = ''2025-09-25'', page = ''1''\<rparr>]))))
   \<and> sum_list (map exact_value (map amount
       [\<lparr>transaction_date = ''05/09/25'', posting_date = ''06/09/25'',
       description = ''ANTHROPIC ANTHROPIC.COMUS'', amount = ''1,250.00'',
       statement_id = ''2025-09-25'', page = ''1''\<rparr>,
      \<lparr>transaction_date = ''07/09/25'', posting_date = ''08/09/25'',
       description = ''OPENROUTER, INC'', amount = ''100.00'',
       statement_id = ''2025-09-25'', page = ''1''\<rparr>])) = 1350
   \<and> sum_list (map (\<lambda>s. \<bar>exact_value s\<bar>) (map amount
       [\<lparr>transaction_date = ''05/09/25'', posting_date = ''06/09/25'',
       description = ''RUNPOD'', amount = ''300.00'',
       statement_id = ''2025-09-25'', page = ''1'', service = ''RunPod GPU''\<rparr>,
      \<lparr>transaction_date = ''07/09/25'', posting_date = ''08/09/25'',
       description = ''RUNPOD REFUND'', amount = ''-50.00'',
       statement_id = ''2025-09-25'', page = ''1'', service = ''RunPod GPU''\<rparr>])) \<le> 2 ^ 53
   \<and> save_and_summarize
       [\<lparr>transaction_date = ''05/09/25'', posting_date = ''06/09/25'',
       description = ''RUNPOD'', amount = ''300.00'',
       statement_id = ''2025-09-25'', page = ''1'', service = ''RunPod GPU''\<rparr>,
      \<lparr>transaction_date = ''07/09/25'', posting_date = ''08/09/25'',
       description = ''RUNPOD REFUND'', amount = ''-50.00'',
       statement_id = ''2025-09-25'', page = ''1'', service = ''RunPod GPU''\<rparr>] =
       (\<lambda>L. exact_bucket (map amount (filter (\<lambda>t. service t = L)
       [\<lparr>transaction_date = ''05/09/25'', posting_date = ''06/09/25'',
       description = ''RUNPOD'', amount = ''300.00'',
       statement_id = ''2025-09-25'', page = ''1'', service = ''RunPod GPU''\<rparr>,
      \<lparr>transaction_date = ''07/09/25'', posting_date = ''08/09/25'',
       description = ''RUNPOD REFUND'', amount = ''-50.00'',
       statement_id = ''2025-09-25'', page = ''1'', service = ''RunPod GPU''\<rparr>])),
        Finite (sum_list (map exact_value (map amount
       [\<lparr>transaction_date = ''05/09/25'', posting_date = ''06/09/25'',
       description = ''RUNPOD'', amount = ''300.00'',
       statement_id = ''2025-09-25'', page = ''1'', service = ''RunPod GPU''\<rparr>,
      \<lparr>transaction_date = ''07/09/25'', posting_date = ''08/09/25'',
       description = ''RUNPOD REFUND'', amount = ''-50.00'',
       statement_id = ''2025-09-25'', page = ''1'', service = ''RunPod GPU''\<rparr>]))))
   \<and> exact_bucket (map amount (filter (\<lambda>t. service t = ''RunPod GPU'')
       [\<lparr>transaction_date = ''05/09/25'', posting_date = ''06/09/25'',
       description = ''RUNPOD'', amount = ''300.00'',
       statement_id = ''2025-09-25'', page = ''1'', service = ''RunPod GPU''\<rparr>,
      \<lparr>transaction_date = ''07/09/25'', posting_date = ''08/09/25'',
       description = ''RUNPOD REFUND'', amount = ''-50.00'',
       statement_id = ''2025-09-25'', page = ''1'', service = ''RunPod GPU''\<rparr>])) = Some \<lparr>bucket_count = 2, bucket_total = Finite 250\<rparr>"
proof -
  let ?rows = "[\<lparr>transaction_date = ''05/09/25'', posting_date = ''06/09/25'',
       description = ''ANTHROPIC ANTHROPIC.COMUS'', amount = ''1,250.00'',
       statement_id = ''2025-09-25'', page = ''1''\<rparr>,
      \<lparr>transaction_date = ''07/09/25'', posting_date = ''08/09/25'',
       description = ''OPENROUTER, INC'', amount = ''100.00'',
       statement_id = ''2025-09-25'', page = ''1''\<rparr>]"
  let ?ts = "[\<lparr>transaction_date = ''05/09/25'', posting_date = ''06/09/25'',
       description = ''RUNPOD'', amount = ''300.00'',
       statement_id = ''2025-09-25'', page = ''1'', service = ''RunPod GPU''\<rparr>,
      \<lparr>transaction_date = ''07/09/25'', posting_date = ''08/09/25'',
       description = ''RUNPOD REFUND'', amount = ''-50.00'',
       statement_id = ''2025-09-25'', page = ''1'', service = ''RunPod GPU''\<rparr>]"
  have h1: "(\<forall>row \<in> set ?rows. whole_amount (amount row)) \<and>
     sum_list (map (\<lambda>s. \<bar>exact_value s\<bar>) (map amount ?rows)) \<le> 2 ^ 53"
    by code_simp
  have h2: "(\<forall>t \<in> set ?ts. whole_amount (amount t)) \<and>
     sum_list (map (\<lambda>s. \<bar>exact_value s\<bar>) (map amount ?ts)) \<le> 2 ^ 53"
    by code_simp
  have s: "sum_list (map exact_value (map amount ?rows)) = 1350"
    by code_simp
  have e: "exact_bucket (map amount (filter (\<lambda>t. service t = ''RunPod GPU'') ?ts)) =
      Some \<lparr>bucket_count = 2, bucket_total = Finite 250\<rparr>"
    by code_simp
  have w: "whole_amount ''1,250.00'' \<and> whole_amount ''100.00''
      \<and> whole_amount ''300.00'' \<and> whole_amount ''-50.00''"
    by code_simp
  from whole_amounts_exact [of ?rows ?ts] h1 h2 s e w
  show ?thesis by blast
qed

text \<open>
  C7 as stated fails: the amounts 0.10 and 0.20 accumulate to a total that is not their
  exact sum 0.30.
\<close>

theorem accumulation_counterexample:
  "amount_exact ''0.10'' = Some (1 / 10)
   \<and> amount_exact ''0.20'' = Some (1 / 5)
   \<and> (case generate_summary
       [\<lparr>transaction_date = ''01/09/25'', posting_date = ''02/09/25'',
       description = ''OPENROUTER, INC'', amount = ''0.10'',
       statement_id = ''2025-09-25'', page = ''1''\<rparr>,
      \<lparr>transaction_date = ''03/09/25'', posting_date = ''04/09/25'',
       description = ''OPENROUTER, INC'', amount = ''0.20'',
       statement_id = ''2025-09-25'', page = ''1''\<rparr>] of
         Inl e \<Rightarrow> None
       | Inr (b, t) \<Rightarrow> Some (b ''OpenRouter AI'', t)) =
       Some (Some \<lparr>bucket_count = 2, bucket_total = Finite (1351079888211149 / 4503599627370496)\<rparr>,
             Finite (1351079888211149 / 4503599627370496))
   \<and> (1351079888211149 / 4503599627370496 :: rat) \<noteq> 1 / 10 + 1 / 5"
  by code_simp

end
